theory Spec2Isabelle
  imports Main "HOL-Library.Word"
begin

unbundle bit_operations_syntax

section \<open>Strings and truthiness\<close>

text \<open>
  JavaScript strings are modelled as \<open>string\<close>, one \<open>char\<close> per code unit, restricted
  to the code points below 256. A value that is documented as ``a string, or falsy'' is a
  \<open>mixed\<close>: the falsy values of the language, or a string (the empty string is falsy too).
\<close>

datatype mixed = Undefined | Null | JFalse | Zero | NaN | Str string

fun truthy :: "mixed \<Rightarrow> bool" where
  "truthy (Str s) = (s \<noteq> [])"
| "truthy v = False"

text \<open>\<open>String(x)\<close>, as the operator \<open>+\<close> applies it to its left operand.\<close>

fun to_string :: "mixed \<Rightarrow> string" where
  "to_string Undefined = ''undefined''"
| "to_string Null = ''null''"
| "to_string JFalse = ''false''"
| "to_string Zero = ''0''"
| "to_string NaN = ''NaN''"
| "to_string (Str s) = s"

section \<open>The regular expression of \<open>remove_unsaved_markers\<close>\<close>

text \<open>
  The source matches \<^verbatim>\<open>/(\s+\(Unsaved\)){1,}\s*$/i\<close>. \<open>is_space\<close> is the class
  \<^verbatim>\<open>\s\<close> on the code points below 256; \<open>canonicalize\<close> is the case folding of the
  flag \<^verbatim>\<open>i\<close> (upper case; a code unit above 127 never folds to ASCII, so on the
  characters of the marker only ASCII letters fold).
\<close>

definition is_space :: "char \<Rightarrow> bool" where
  "is_space c = (of_char c \<in> {9, 10, 11, 12, 13, 32, 160 :: nat})"

definition canonicalize :: "char \<Rightarrow> nat" where
  "canonicalize c = (let n = of_char c in if 97 \<le> n \<and> n \<le> 122 then n - 32 else n)"

definition marker :: string where
  "marker = ''(Unsaved)''"

text \<open>\<open>is_marker m\<close>: the text \<open>m\<close> is the marker, in any letter case.\<close>

definition is_marker :: "string \<Rightarrow> bool" where
  "is_marker m = (map canonicalize m = map canonicalize marker)"

text \<open>
  \<open>match_groups s\<close>: the whole of \<open>s\<close> matches \<^verbatim>\<open>(\s+\(Unsaved\)){1,}\s*\<close>, that is,
  the expression matches at the first character of \<open>s\<close> and its \<^verbatim>\<open>$\<close> is the end of
  \<open>s\<close>. The marker starts with a parenthesis, which is not white space, so \<^verbatim>\<open>\s+\<close>
  can only take the whole run of white space in front of it: the matcher is deterministic.
\<close>

function match_groups :: "string \<Rightarrow> bool" where
  "match_groups s =
     (let r = dropWhile is_space s in
      if r = s \<or> \<not> is_marker (take (length marker) r) then False
      else let t = drop (length marker) r in
           if dropWhile is_space t = [] then True else match_groups t)"
  by pat_completeness auto
termination
proof (relation "measure length")
  show "wf (measure length)" by simp
next
  fix s r t :: string
  assume r: "r = dropWhile is_space s" and t: "t = drop (length marker) r"
    and c: "\<not> (r = s \<or> \<not> is_marker (take (length marker) r))"
  have "length r \<le> length s" unfolding r by (rule length_dropWhile_le)
  moreover have "length (take (length marker) r) = length marker"
    using c unfolding is_marker_def by (metis length_map)
  moreover have "length marker = 9" by (simp add: marker_def)
  ultimately show "(t, s) \<in> measure length" unfolding t by simp
qed

declare match_groups.simps [simp del]

text \<open>
  \<open>str.match(re)\<close>: the index of the leftmost position at which the expression matches,
  or \<open>None\<close> (JavaScript's \<open>null\<close>). No match starts at the end of the string, since a
  match holds at least one marker.
\<close>

fun re_search :: "string \<Rightarrow> nat \<Rightarrow> nat option" where
  "re_search [] i = None"
| "re_search (c # cs) i = (if match_groups (c # cs) then Some i else re_search cs (Suc i))"

definition re_match :: "string \<Rightarrow> nat option" where
  "re_match s = re_search s 0"

text \<open>The language of the expression, as the expression reads: one or more groups of
  white space and a marker, then optional white space.\<close>

inductive marker_run :: "string \<Rightarrow> bool" where
  last_group: "w \<noteq> [] \<Longrightarrow> list_all is_space w \<Longrightarrow> is_marker m \<Longrightarrow> list_all is_space t
     \<Longrightarrow> marker_run (w @ m @ t)"
| more_groups: "w \<noteq> [] \<Longrightarrow> list_all is_space w \<Longrightarrow> is_marker m \<Longrightarrow> marker_run t
     \<Longrightarrow> marker_run (w @ m @ t)"

text \<open>\<open>module.remove_unsaved_markers\<close> (view/model.js).\<close>

fun remove_unsaved_markers :: "mixed \<Rightarrow> mixed" where
  "remove_unsaved_markers (Str s) =
     (if s = [] then Str s
      else case re_match s of
             Some i \<Rightarrow> if 0 < i then Str (take i s) else Str s
           | None \<Rightarrow> Str s)"
| "remove_unsaved_markers v = v"

text \<open>What the specification calls a string that contains a marker: the text occurs in it.\<close>

fun occurs_in :: "string \<Rightarrow> string \<Rightarrow> bool" where
  "occurs_in p [] = (p = [])"
| "occurs_in p (c # cs) = (take (length p) (c # cs) = p \<or> occurs_in p cs)"

fun occurs_in_ci :: "string \<Rightarrow> string \<Rightarrow> bool" where
  "occurs_in_ci p [] = (p = [])"
| "occurs_in_ci p (c # cs) =
     (map canonicalize (take (length p) (c # cs)) = map canonicalize p \<or> occurs_in_ci p cs)"

section \<open>The hash of an ordered sequence of strings\<close>

subsection \<open>BLAKE2s\<close>

text \<open>
  Modelled from the spec: the module \<^verbatim>\<open>blake2s\<close> that \<open>orderedHashOfStrings\<close> imports
  is not part of the sources. The specification names the function: BLAKE2s with a 256-bit
  digest and no key. It is modelled here as RFC 7693 defines it, with the interface the
  source uses: a hash state made by \<open>new BLAKE2s(32)\<close>, \<open>update\<close> and \<open>hexDigest\<close>.
\<close>

type_synonym u32 = "32 word"
type_synonym byte = "8 word"

definition BLAKE2S_IV :: "u32 list" where
  "BLAKE2S_IV = [0x6A09E667, 0xBB67AE85, 0x3C6EF372, 0xA54FF53A,
                 0x510E527F, 0x9B05688C, 0x1F83D9AB, 0x5BE0CD19]"

definition BLAKE2S_SIGMA :: "nat list list" where
  "BLAKE2S_SIGMA =
    [[0, 1, 2, 3, 4, 5, 6, 7, 8, 9, 10, 11, 12, 13, 14, 15],
     [14, 10, 4, 8, 9, 15, 13, 6, 1, 12, 0, 2, 11, 7, 5, 3],
     [11, 8, 12, 0, 5, 2, 15, 13, 10, 14, 3, 6, 7, 1, 9, 4],
     [7, 9, 3, 1, 13, 12, 11, 14, 2, 6, 5, 10, 4, 0, 15, 8],
     [9, 0, 5, 7, 2, 4, 10, 15, 14, 1, 11, 12, 6, 8, 3, 13],
     [2, 12, 6, 10, 0, 11, 8, 3, 4, 13, 7, 5, 15, 14, 1, 9],
     [12, 5, 1, 15, 14, 13, 4, 10, 0, 7, 6, 3, 9, 2, 8, 11],
     [13, 11, 7, 14, 12, 1, 3, 9, 5, 0, 15, 4, 8, 6, 2, 10],
     [6, 15, 14, 9, 11, 3, 0, 8, 12, 2, 13, 7, 1, 4, 10, 5],
     [10, 2, 8, 4, 7, 6, 1, 5, 15, 11, 9, 14, 3, 12, 13, 0]]"

definition rotr32 :: "nat \<Rightarrow> u32 \<Rightarrow> u32" where
  "rotr32 n x = drop_bit n x OR push_bit (32 - n) x"

text \<open>The mixing function \<open>G\<close> on the four words it reads and writes.\<close>

definition G :: "u32 \<times> u32 \<times> u32 \<times> u32 \<Rightarrow> u32 \<Rightarrow> u32 \<Rightarrow> u32 \<times> u32 \<times> u32 \<times> u32" where
  "G q x y =
    (case q of (a0, b0, c0, d0) \<Rightarrow>
     let a1 = a0 + b0 + x;
         d1 = rotr32 16 (d0 XOR a1);
         c1 = c0 + d1;
         b1 = rotr32 12 (b0 XOR c1);
         a2 = a1 + b1 + y;
         d2 = rotr32 8 (d1 XOR a2);
         c2 = c1 + d2;
         b2 = rotr32 7 (b1 XOR c2)
     in (a2, b2, c2, d2))"

text \<open>\<open>G\<close> applied to the words \<open>a\<close>, \<open>b\<close>, \<open>c\<close>, \<open>d\<close> of the work vector.\<close>

definition mix :: "u32 list \<Rightarrow> nat \<Rightarrow> nat \<Rightarrow> nat \<Rightarrow> nat \<Rightarrow> u32 \<Rightarrow> u32 \<Rightarrow> u32 list" where
  "mix v a b c d x y =
     (case G (v ! a, v ! b, v ! c, v ! d) x y of
        (p, q, r, t) \<Rightarrow> v[a := p, b := q, c := r, d := t])"

definition round_fn :: "u32 list \<Rightarrow> nat list \<Rightarrow> u32 list \<Rightarrow> u32 list" where
  "round_fn m s v =
     mix (mix (mix (mix (mix (mix (mix (mix v
       0 4 8 12 (m ! (s ! 0)) (m ! (s ! 1)))
       1 5 9 13 (m ! (s ! 2)) (m ! (s ! 3)))
       2 6 10 14 (m ! (s ! 4)) (m ! (s ! 5)))
       3 7 11 15 (m ! (s ! 6)) (m ! (s ! 7)))
       0 5 10 15 (m ! (s ! 8)) (m ! (s ! 9)))
       1 6 11 12 (m ! (s ! 10)) (m ! (s ! 11)))
       2 7 8 13 (m ! (s ! 12)) (m ! (s ! 13)))
       3 4 9 14 (m ! (s ! 14)) (m ! (s ! 15))"

text \<open>Little-endian words of a block.\<close>

fun le32 :: "byte list \<Rightarrow> u32" where
  "le32 [] = 0"
| "le32 (b # bs) = ucast b OR push_bit 8 (le32 bs)"

fun words_of :: "byte list \<Rightarrow> u32 list" where
  "words_of (a # b # c # d # bs) = le32 [a, b, c, d] # words_of bs"
| "words_of bs = []"

definition init_work :: "u32 list \<Rightarrow> nat \<Rightarrow> bool \<Rightarrow> u32 list" where
  "init_work h t final =
     h @ take 4 BLAKE2S_IV @
     [BLAKE2S_IV ! 4 XOR of_nat (t mod 2 ^ 32),
      BLAKE2S_IV ! 5 XOR of_nat (t div 2 ^ 32),
      (if final then NOT (BLAKE2S_IV ! 6) else BLAKE2S_IV ! 6),
      BLAKE2S_IV ! 7]"

definition finish :: "u32 list \<Rightarrow> u32 list \<Rightarrow> u32 list" where
  "finish h v = map (\<lambda>i. h ! i XOR v ! i XOR v ! (i + 8)) [0, 1, 2, 3, 4, 5, 6, 7]"

text \<open>The compression function \<open>F\<close>: chaining value, 64-byte block, byte counter, final flag.\<close>

definition compress :: "u32 list \<Rightarrow> byte list \<Rightarrow> nat \<Rightarrow> bool \<Rightarrow> u32 list" where
  "compress h block t final =
     finish h (fold (round_fn (words_of block)) BLAKE2S_SIGMA (init_work h t final))"

record blake2s_state =
  b_h :: "u32 list"
  b_t :: nat
  b_buf :: "byte list"
  b_outlen :: nat

text \<open>\<open>new BLAKE2s(nn)\<close>: no key, digest length \<open>nn\<close>.\<close>

definition BLAKE2s_new :: "nat \<Rightarrow> blake2s_state" where
  "BLAKE2s_new nn =
     \<lparr>b_h = (BLAKE2S_IV ! 0 XOR 0x01010000 XOR of_nat nn) # tl BLAKE2S_IV,
      b_t = 0, b_buf = [], b_outlen = nn\<rparr>"

text \<open>Full blocks are compressed as soon as more input follows them; the last block,
  full or not, waits in the buffer for the final compression.\<close>

function absorb :: "u32 list \<Rightarrow> nat \<Rightarrow> byte list \<Rightarrow> u32 list \<times> nat \<times> byte list" where
  "absorb h t buf =
     (if 64 < length buf
      then absorb (compress h (take 64 buf) (t + 64) False) (t + 64) (drop 64 buf)
      else (h, t, buf))"
  by pat_completeness auto
termination
  by (relation "measure (\<lambda>(h, t, buf). length buf)") auto

declare absorb.simps [simp del]

definition blake_update :: "blake2s_state \<Rightarrow> byte list \<Rightarrow> blake2s_state" where
  "blake_update st p =
     (case absorb (b_h st) (b_t st) (b_buf st @ p) of
        (h, t, buf) \<Rightarrow> st\<lparr>b_h := h, b_t := t, b_buf := buf\<rparr>)"

definition bytes_le :: "u32 \<Rightarrow> byte list" where
  "bytes_le w = [ucast w, ucast (drop_bit 8 w), ucast (drop_bit 16 w), ucast (drop_bit 24 w)]"

definition digest :: "blake2s_state \<Rightarrow> byte list" where
  "digest st =
     take (b_outlen st)
       (concat (map bytes_le
          (compress (b_h st) (b_buf st @ replicate (64 - length (b_buf st)) 0)
             (b_t st + length (b_buf st)) True)))"

definition hex_digit :: "nat \<Rightarrow> char" where
  "hex_digit n = ''0123456789abcdef'' ! n"

definition hex_byte :: "byte \<Rightarrow> string" where
  "hex_byte b = [hex_digit (unat b div 16), hex_digit (unat b mod 16)]"

definition hex :: "byte list \<Rightarrow> string" where
  "hex bs = concat (map hex_byte bs)"

definition hexDigest :: "blake2s_state \<Rightarrow> string" where
  "hexDigest st = hex (digest st)"

text \<open>Evaluation of \<open>G\<close> by value, one assignment at a time (used to compute digests).\<close>

fun mix_b2 :: "u32 \<Rightarrow> u32 \<Rightarrow> u32 \<Rightarrow> u32 \<Rightarrow> u32 \<times> u32 \<times> u32 \<times> u32" where
  "mix_b2 a c d b = (a, rotr32 7 (b XOR c), c, d)"

fun mix_c2 :: "u32 \<Rightarrow> u32 \<Rightarrow> u32 \<Rightarrow> u32 \<Rightarrow> u32 \<times> u32 \<times> u32 \<times> u32" where
  "mix_c2 a b d c = mix_b2 a c d b"

fun mix_d2 :: "u32 \<Rightarrow> u32 \<Rightarrow> u32 \<Rightarrow> u32 \<Rightarrow> u32 \<times> u32 \<times> u32 \<times> u32" where
  "mix_d2 a b c d = mix_c2 a b d (c + d)"

fun mix_a2 :: "u32 \<Rightarrow> u32 \<Rightarrow> u32 \<Rightarrow> u32 \<Rightarrow> u32 \<times> u32 \<times> u32 \<times> u32" where
  "mix_a2 b c d a = mix_d2 a b c (rotr32 8 (d XOR a))"

fun mix_b1 :: "u32 \<Rightarrow> u32 \<Rightarrow> u32 \<Rightarrow> u32 \<Rightarrow> u32 \<Rightarrow> u32 \<times> u32 \<times> u32 \<times> u32" where
  "mix_b1 a c d y b = mix_a2 b c d (a + b + y)"

fun mix_c1 :: "u32 \<Rightarrow> u32 \<Rightarrow> u32 \<Rightarrow> u32 \<Rightarrow> u32 \<Rightarrow> u32 \<times> u32 \<times> u32 \<times> u32" where
  "mix_c1 a b d y c = mix_b1 a c d y (rotr32 12 (b XOR c))"

fun mix_d1 :: "u32 \<Rightarrow> u32 \<Rightarrow> u32 \<Rightarrow> u32 \<Rightarrow> u32 \<Rightarrow> u32 \<times> u32 \<times> u32 \<times> u32" where
  "mix_d1 a b c y d = mix_c1 a b d y (c + d)"

fun mix_a1 :: "u32 \<Rightarrow> u32 \<Rightarrow> u32 \<Rightarrow> u32 \<Rightarrow> u32 \<Rightarrow> u32 \<times> u32 \<times> u32 \<times> u32" where
  "mix_a1 b c d y a = mix_d1 a b c y (rotr32 16 (d XOR a))"

fun on_quad :: "(u32 \<Rightarrow> u32 \<Rightarrow> u32 \<Rightarrow> u32 \<Rightarrow> u32 list) \<Rightarrow> u32 \<times> u32 \<times> u32 \<times> u32 \<Rightarrow> u32 list" where
  "on_quad f (p, q, r, t) = f p q r t"

subsection \<open>\<open>orderedHashOfStrings\<close>\<close>

text \<open>
  \<open>Buffer.from(s, 'utf8')\<close> on the code points below 256: one byte below 128, two bytes
  from 128 on.
\<close>

definition utf8_char :: "char \<Rightarrow> byte list" where
  "utf8_char c =
     (let n = (of_char c :: nat)
      in if n < 128 then [of_nat n] else [of_nat (192 + n div 64), of_nat (128 + n mod 64)])"

definition utf8 :: "string \<Rightarrow> byte list" where
  "utf8 s = concat (map utf8_char s)"

text \<open>The argument of \<open>orderedHashOfStrings\<close>: a string, or an array of strings.\<close>

datatype strs = Single string | Array "string list"

fun as_array :: "strs \<Rightarrow> string list" where
  "as_array (Array xs) = xs"
| "as_array (Single x) = [x]"

text \<open>\<open>module.orderedHashOfStrings\<close> (view/model.js): the loop feeds \<open>str + '\0'\<close>, encoded
  in UTF-8, to the one hash state.\<close>

definition orderedHashOfStrings :: "strs \<Rightarrow> string" where
  "orderedHashOfStrings strs =
     hexDigest (fold (\<lambda>str blake. blake_update blake (utf8 (str @ [CHR 0x00])))
                  (as_array strs) (BLAKE2s_new 32))"

section \<open>Constants (view/const.js)\<close>

datatype item_type = IT_WIN | IT_TAB

text \<open>\<open>K.NONE\<close> is \<open>chrome.windows.WINDOW_ID_NONE\<close>, which is \<open>-1\<close>.\<close>

definition NONE :: int where
  "NONE = - 1"

definition WIN_KEEP :: bool where
  "WIN_KEEP = True"

definition WIN_NOKEEP :: bool where
  "WIN_NOKEEP = False"

definition NST_OPEN :: string where
  "NST_OPEN = ''open''"

definition NST_SAVED :: string where
  "NST_SAVED = ''saved''"

text \<open>The item types are strings in the source; they are also used as node tags.\<close>

fun type_tag :: "item_type \<Rightarrow> string" where
  "type_tag IT_WIN = ''win''"
| "type_tag IT_TAB = ''tab''"

section \<open>The data model\<close>

text \<open>The browser's window and tab objects, with the fields the module reads.\<close>

record chrome_window =
  cw_id :: int

record chrome_tab =
  ct_id :: int
  ct_windowId :: int
  ct_index :: int
  ct_url :: "string option"
  ct_title :: "string option"
  ct_favIconUrl :: "string option"
  ct_pinned :: bool

text \<open>
  A details record. In the source both kinds of record are objects with a field \<open>ty\<close>
  and a kind-specific set of fields; a field that a record does not have reads as
  \<open>undefined\<close>. Here one record type has every field; \<open>None\<close> stands for \<open>null\<close> and
  \<open>undefined\<close> (absent handle, absent title), and the numeric fields that a kind does not
  have are never read for that kind.
\<close>

record val =
  ty :: item_type
  node_id :: string
  win_id :: int
  tab_id :: int
  index :: int
  win :: "chrome_window option"
  tab :: "chrome_tab option"
  raw_url :: "string option"
  raw_title :: "string option"
  raw_bullet :: "string option"
  raw_favicon_url :: "string option"
  isOpen :: bool
  isPinned :: bool
  keep :: "bool option"
  ordered_url_hash :: "string option"

subsection \<open>The Tree View\<close>

text \<open>
  Modelled from the spec: the tree object \<open>T.treeobj\<close> (a jstree instance made by
  view/item_tree.js) is not part of the sources. It is modelled from the interface the
  specification lists in its section 6: a node has an id, a parent, an ordered list of
  children, a label, an icon and a set of tags; \<open>get_node\<close> gives the node record, whose
  \<open>children\<close> is the list of child ids at the time of the call. \<open>parents\<close> lists the
  ancestors of a node, nearest first, so that deleting a node can delete its subtree.
  The label is kept as markup pieces and the icon as a key, so that escaping and URI
  encoding, which the sources import, need no model.
\<close>

datatype markup = Raw string | Escaped string | Span string "markup list"

datatype icon = IconTrue | IconClass string | IconUri string

record node =
  parent :: "string option"
  parents :: "string list"
  children :: "string list"
  label :: "markup list"
  icon :: icon
  multitype :: "string set"
  opened :: bool

type_synonym tree = "string \<rightharpoonup> node"

definition jstree_root :: string where
  "jstree_root = ''#''"

definition get_node :: "tree \<Rightarrow> string \<Rightarrow> node option" where
  "get_node t n = t n"

datatype position = Last | At nat

text \<open>
  \<open>create_node(parent, node, position)\<close>. Which id the tree gives the new node, or that it
  refuses to create one, is the tree's choice: \<open>pick\<close> is that choice, \<open>None\<close> for a
  refusal. The tree never reuses the id of a node it holds; a pick that is empty or in use
  counts as a refusal. The result is the new id, or \<open>None\<close> for the source's \<open>false\<close>.
\<close>

definition create_node ::
    "tree \<Rightarrow> string \<Rightarrow> markup list \<Rightarrow> position \<Rightarrow> string option \<Rightarrow> string option \<times> tree" where
  "create_node t par lbl pos pick =
     (case t par of
        None \<Rightarrow> (None, t)
      | Some p \<Rightarrow>
          (case pick of
             None \<Rightarrow> (None, t)
           | Some n \<Rightarrow>
               if n = [] \<or> t n \<noteq> None then (None, t)
               else
                 let i = (case pos of Last \<Rightarrow> length (children p)
                                     | At k \<Rightarrow> min k (length (children p)));
                     new = \<lparr>parent = Some par, parents = par # parents p, children = [],
                            label = lbl, icon = IconTrue, multitype = {}, opened = False\<rparr>
                 in (Some n,
                     t(par \<mapsto> p\<lparr>children := take i (children p) @ [n] @ drop i (children p)\<rparr>,
                       n \<mapsto> new))))"

text \<open>\<open>delete_node(id)\<close>: the node and its descendants leave the tree, and the node leaves
  the children of its parent. The root is not deleted.\<close>

definition delete_node :: "tree \<Rightarrow> string \<Rightarrow> tree" where
  "delete_node t n =
     (case t n of
        None \<Rightarrow> t
      | Some x \<Rightarrow>
          (case parent x of
             None \<Rightarrow> t
           | Some p \<Rightarrow>
               let t1 = (case t p of
                           None \<Rightarrow> t
                         | Some pn \<Rightarrow> t(p \<mapsto> pn\<lparr>children := remove1 n (children pn)\<rparr>))
               in (\<lambda>k. if k = n then None
                        else case t1 k of
                               None \<Rightarrow> None
                             | Some y \<Rightarrow> if n \<in> set (parents y) then None else Some y)))"

definition rename_node :: "tree \<Rightarrow> string \<Rightarrow> markup list \<Rightarrow> bool \<times> tree" where
  "rename_node t n lbl =
     (case t n of None \<Rightarrow> (False, t) | Some x \<Rightarrow> (True, t(n \<mapsto> x\<lparr>label := lbl\<rparr>)))"

definition set_icon :: "tree \<Rightarrow> string \<Rightarrow> icon \<Rightarrow> tree" where
  "set_icon t n ic = (case t n of None \<Rightarrow> t | Some x \<Rightarrow> t(n \<mapsto> x\<lparr>icon := ic\<rparr>))"

text \<open>A node without children cannot be opened (the source notes it at \<open>markWinAsOpen\<close>).\<close>

definition open_node :: "tree \<Rightarrow> string \<Rightarrow> tree" where
  "open_node t n =
     (case t n of
        None \<Rightarrow> t
      | Some x \<Rightarrow> if children x = [] then t else t(n \<mapsto> x\<lparr>opened := True\<rparr>))"

definition add_multitype :: "tree \<Rightarrow> string \<Rightarrow> string \<Rightarrow> tree" where
  "add_multitype t n tag =
     (case t n of None \<Rightarrow> t | Some x \<Rightarrow> t(n \<mapsto> x\<lparr>multitype := insert tag (multitype x)\<rparr>))"

definition del_multitype :: "tree \<Rightarrow> string \<Rightarrow> string \<Rightarrow> tree" where
  "del_multitype t n tag =
     (case t n of None \<Rightarrow> t | Some x \<Rightarrow> t(n \<mapsto> x\<lparr>multitype := multitype x - {tag}\<rparr>))"

subsection \<open>The model: Keyed Store, Tree View and log\<close>

text \<open>
  Modelled from the spec: the stores \<open>D.windows\<close> and \<open>D.tabs\<close> (view/item_details.js)
  are not part of the sources. Following the specification (sections 6 and 9), a store is
  a primary map from node id to record and, for windows, a secondary map from
  \<open>ordered_url_hash\<close> to the node id of the window that owns the hash; \<open>null\<close> is not a
  key. The index by browser id is not modelled: no operation of the module reads it.

  A record object is held by reference in the source. Here a \<open>val\<close> is the content of a
  record, and its \<open>ty\<close> and \<open>node_id\<close> say which object it is: an assignment to a field of
  a record is written back to the store with \<open>put_val\<close>. A record object that no store
  holds is not tracked.

  \<open>info_log\<close> is what \<open>log.info\<close> has printed: the message, and the record printed with it.
\<close>

record model =
  windows :: "string \<rightharpoonup> val"
  windows_by_hash :: "string \<rightharpoonup> string"
  tabs :: "string \<rightharpoonup> val"
  treeobj :: tree
  info_log :: "(string \<times> val) list"

definition put_val :: "model \<Rightarrow> val \<Rightarrow> model" where
  "put_val m v =
     (case ty v of
        IT_WIN \<Rightarrow> if windows m (node_id v) = None then m
                  else m\<lparr>windows := (windows m)(node_id v \<mapsto> v)\<rparr>
      | IT_TAB \<Rightarrow> if tabs m (node_id v) = None then m
                  else m\<lparr>tabs := (tabs m)(node_id v \<mapsto> v)\<rparr>)"

text \<open>\<open>D.val_by_node_id\<close>: the record of either kind.\<close>

definition val_by_node_id :: "model \<Rightarrow> string \<Rightarrow> val option" where
  "val_by_node_id m n = (case windows m n of Some v \<Rightarrow> Some v | None \<Rightarrow> tabs m n)"

text \<open>\<open>D.tabs.by_node_id(id, 'raw_url')\<close>: the field of the record, falsy without a record.\<close>

definition tabs_by_node_id_raw_url :: "model \<Rightarrow> string \<Rightarrow> string option" where
  "tabs_by_node_id_raw_url m n = (case tabs m n of None \<Rightarrow> None | Some v \<Rightarrow> raw_url v)"

definition by_ordered_url_hash :: "model \<Rightarrow> string \<Rightarrow> val option" where
  "by_ordered_url_hash m h =
     (case windows_by_hash m h of None \<Rightarrow> None | Some n \<Rightarrow> windows m n)"

text \<open>\<open>add\<close>: a record cannot be added under a key that is in use.\<close>

definition windows_add :: "model \<Rightarrow> val \<Rightarrow> val option \<times> model" where
  "windows_add m new_value =
     (let v = new_value\<lparr>ty := IT_WIN\<rparr> in
      if windows m (node_id v) \<noteq> None
         \<or> (case ordered_url_hash v of None \<Rightarrow> False | Some h \<Rightarrow> windows_by_hash m h \<noteq> None)
      then (None, m)
      else (Some v,
            m\<lparr>windows := (windows m)(node_id v \<mapsto> v),
              windows_by_hash :=
                (case ordered_url_hash v of
                   None \<Rightarrow> windows_by_hash m
                 | Some h \<Rightarrow> (windows_by_hash m)(h \<mapsto> node_id v))\<rparr>))"

definition tabs_add :: "model \<Rightarrow> val \<Rightarrow> val option \<times> model" where
  "tabs_add m new_value =
     (let v = new_value\<lparr>ty := IT_TAB\<rparr> in
      if tabs m (node_id v) \<noteq> None then (None, m)
      else (Some v, m\<lparr>tabs := (tabs m)(node_id v \<mapsto> v)\<rparr>))"

text \<open>\<open>remove_value\<close>: the record leaves the store that holds it, with its keys.\<close>

definition windows_remove_value :: "model \<Rightarrow> val \<Rightarrow> model" where
  "windows_remove_value m v =
     (if ty v = IT_WIN \<and> windows m (node_id v) \<noteq> None
      then m\<lparr>windows := (windows m)(node_id v := None),
             windows_by_hash :=
               (case ordered_url_hash v of
                  None \<Rightarrow> windows_by_hash m
                | Some h \<Rightarrow> (windows_by_hash m)(h := None))\<rparr>
      else m)"

definition tabs_remove_value :: "model \<Rightarrow> val \<Rightarrow> model" where
  "tabs_remove_value m v =
     (if ty v = IT_TAB \<and> tabs m (node_id v) \<noteq> None
      then m\<lparr>tabs := (tabs m)(node_id v := None)\<rparr>
      else m)"

text \<open>\<open>D.windows.change_key(val, 'ordered_url_hash', new)\<close>: the old key leaves the index,
  the field is set, the new key enters the index.\<close>

definition change_key_ordered_url_hash :: "model \<Rightarrow> val \<Rightarrow> string option \<Rightarrow> model" where
  "change_key_ordered_url_hash m v new =
     (let idx1 = (case ordered_url_hash v of
                    None \<Rightarrow> windows_by_hash m
                  | Some h \<Rightarrow> (windows_by_hash m)(h := None));
          idx2 = (case new of None \<Rightarrow> idx1 | Some h \<Rightarrow> idx1(h \<mapsto> node_id v))
      in put_val (m\<lparr>windows_by_hash := idx2\<rparr>) (v\<lparr>ordered_url_hash := new\<rparr>))"

text \<open>\<open>change_key(val, 'win_id', x)\<close> and \<open>change_key(val, 'tab_id', x)\<close>: the field is set
  (the index by browser id is not modelled).\<close>

definition change_key_win_id :: "model \<Rightarrow> val \<Rightarrow> int \<Rightarrow> model" where
  "change_key_win_id m v x = put_val m (v\<lparr>win_id := x\<rparr>)"

definition change_key_tab_id :: "model \<Rightarrow> val \<Rightarrow> int \<Rightarrow> model" where
  "change_key_tab_id m v x = put_val m (v\<lparr>tab_id := x\<rparr>)"

text \<open>\<open>Object.is\<close> on two records: the same object.\<close>

definition same_object :: "val \<Rightarrow> val \<Rightarrow> bool" where
  "same_object a b = (ty a = ty b \<and> node_id a = node_id b)"

section \<open>The item module (view/model.js)\<close>

subsection \<open>Querying the model\<close>

text \<open>
  A ``vorny'': a node id (a string), a jstree node object (with its \<open>id\<close> and \<open>parent\<close>),
  a details record, something falsy, or anything else.
\<close>

datatype vorny = Falsy | NodeId string | JsNode string "string option" | Val val | Other

type_synonym vn = "val option \<times> string"

definition VN_NONE :: vn where
  "VN_NONE = (None, [])"

fun vn_by_vorny :: "model \<Rightarrow> vorny \<Rightarrow> item_type option \<Rightarrow> vn" where
  "vn_by_vorny m Falsy item_type = VN_NONE"
| "vn_by_vorny m (NodeId n) item_type =
     (if n = [] then VN_NONE
      else ((case item_type of
               Some IT_WIN \<Rightarrow> windows m n
             | Some IT_TAB \<Rightarrow> tabs m n
             | None \<Rightarrow> val_by_node_id m n), n))"
| "vn_by_vorny m (JsNode i p) item_type =
     (if i \<noteq> [] \<and> p \<noteq> None \<and> p \<noteq> Some [] then (val_by_node_id m i, i) else VN_NONE)"
| "vn_by_vorny m (Val v) item_type =
     (if node_id v = [] then VN_NONE else (Some v, node_id v))"
| "vn_by_vorny m Other item_type = VN_NONE"

subsection \<open>Data-access routines\<close>

definition get_win_raw_text :: "val \<Rightarrow> string" where
  "get_win_raw_text v =
     (case raw_title v of
        Some t \<Rightarrow> t
      | None \<Rightarrow> if keep v = Some True then ''Saved tabs'' else ''Unsaved'')"

text \<open>The label: a pin, the bullet in a span with a dingbat when text follows it, the
  text. (The text is never the single character U+FEFF, which is above 255.)\<close>

definition get_html_label :: "val \<Rightarrow> markup list" where
  "get_html_label v =
     (let raw_text = get_win_raw_text v in
      (if isPinned v then [Raw ''&#x1f4cc;&nbsp;''] else []) @
      (case raw_bullet v of
         None \<Rightarrow> []
       | Some b \<Rightarrow>
           if b = [] then []
           else [Span ''tf-bullet''
                   (Escaped b # (if raw_text \<noteq> [] then [Raw '' &#x2726; ''] else []))]) @
      [Escaped raw_text])"

subsection \<open>Item manipulation\<close>

definition refresh_label :: "model \<Rightarrow> string \<Rightarrow> bool \<times> model" where
  "refresh_label m n =
     (if n = [] then (False, m)
      else case val_by_node_id m n of
             None \<Rightarrow> (False, m)
           | Some v \<Rightarrow>
               (case rename_node (treeobj m) n (get_html_label v) of
                  (retval, t) \<Rightarrow> (retval, m\<lparr>treeobj := t\<rparr>)))"

text \<open>\<^verbatim>\<open>/\.pdf$/i\<close> on the address.\<close>

definition is_pdf :: "string \<Rightarrow> bool" where
  "is_pdf u = (4 \<le> length u \<and> map canonicalize (drop (length u - 4) u) = map canonicalize ''.pdf'')"

definition refresh_icon :: "model \<Rightarrow> vorny \<Rightarrow> bool \<times> model" where
  "refresh_icon m vorny =
     (case vn_by_vorny m vorny None of
        (None, n) \<Rightarrow> (False, m)
      | (Some v, n) \<Rightarrow>
          if n = [] \<or> get_node (treeobj m) n = None then (False, m)
          else
            let ic = (case ty v of
                        IT_TAB \<Rightarrow>
                          (case raw_favicon_url v of
                             Some f \<Rightarrow>
                               if f \<noteq> [] then IconUri f
                               else if (case raw_url v of Some u \<Rightarrow> is_pdf u | None \<Rightarrow> False)
                               then IconClass ''fff-page-white-with-red-banner''
                               else IconClass ''fff-page''
                           | None \<Rightarrow>
                               if (case raw_url v of Some u \<Rightarrow> is_pdf u | None \<Rightarrow> False)
                               then IconClass ''fff-page-white-with-red-banner''
                               else IconClass ''fff-page'')
                      | IT_WIN \<Rightarrow>
                          if isOpen v \<and> keep v = Some True then IconClass ''fff-monitor-add''
                          else if isOpen v then IconClass ''fff-monitor''
                          else IconTrue)
            in (True, m\<lparr>treeobj := set_icon (treeobj m) n ic\<rparr>))"

text \<open>\<open>module.mark_win_as_unsaved(val, adjust_title)\<close>.\<close>

definition mark_win_as_unsaved :: "model \<Rightarrow> val option \<Rightarrow> bool \<Rightarrow> bool \<times> model" where
  "mark_win_as_unsaved m val adjust_title =
     (case val of
        None \<Rightarrow> (False, m)
      | Some v \<Rightarrow>
          if ty v \<noteq> IT_WIN \<or> node_id v = [] then (False, m)
          else
            let v1 = v\<lparr>keep := Some WIN_NOKEEP\<rparr>;
                m1 = put_val m v1;
                m2 = m1\<lparr>treeobj := del_multitype (treeobj m1) (node_id v1) NST_SAVED\<rparr>;
                v2 = (case raw_title v1 of
                        None \<Rightarrow> v1
                      | Some t \<Rightarrow>
                          if adjust_title
                          then v1\<lparr>raw_title :=
                                   Some (to_string (remove_unsaved_markers (Str t)) @ '' (Unsaved)'')\<rparr>
                          else v1);
                m3 = put_val m2 v2;
                m4 = snd (refresh_label m3 (node_id v2));
                m5 = snd (refresh_icon m4 (Val v2))
            in (True, m5))"

text \<open>A \<open>mixed\<close> assigned to \<open>raw_title\<close>.\<close>

fun as_title :: "mixed \<Rightarrow> string option" where
  "as_title (Str s) = Some s"
| "as_title v = None"

text \<open>\<open>module.remember(win_node_id, cleanup_title)\<close>.\<close>

definition remember :: "model \<Rightarrow> string \<Rightarrow> bool \<Rightarrow> bool \<times> model" where
  "remember m win_node_id cleanup_title =
     (if win_node_id = [] then (False, m)
      else case windows m win_node_id of
             None \<Rightarrow> (False, m)
           | Some v \<Rightarrow>
               let v1 = v\<lparr>keep := Some WIN_KEEP\<rparr>;
                   m1 = put_val m v1;
                   m2 = m1\<lparr>treeobj := add_multitype (treeobj m1) win_node_id NST_SAVED\<rparr>;
                   v2 = (if cleanup_title
                         then v1\<lparr>raw_title :=
                                  as_title (remove_unsaved_markers (Str (get_win_raw_text v1)))\<rparr>
                         else v1);
                   m3 = put_val m2 v2;
                   m4 = snd (refresh_label m3 win_node_id);
                   m5 = snd (refresh_icon m4 (Val v2))
               in (True, m5))"

subsection \<open>Hashing routines\<close>

text \<open>The loop of \<open>updateOrderedURLHash\<close> over the children: \<open>None\<close> when it leaves at a
  child without an address, the addresses otherwise.\<close>

fun child_urls_loop :: "model \<Rightarrow> string list \<Rightarrow> string list \<Rightarrow> string list option" where
  "child_urls_loop m [] child_urls = Some child_urls"
| "child_urls_loop m (child_node_id # rest) child_urls =
     (case tabs_by_node_id_raw_url m child_node_id of
        None \<Rightarrow> None
      | Some child_url \<Rightarrow>
          if child_url = [] then None
          else child_urls_loop m rest (child_urls @ [child_url]))"

definition updateOrderedURLHash :: "model \<Rightarrow> vorny \<Rightarrow> bool \<times> model" where
  "updateOrderedURLHash m vornyParent =
     (case vn_by_vorny m vornyParent (Some IT_WIN) of
        (None, parent_node_id) \<Rightarrow> (False, m)
      | (Some parent_val, parent_node_id) \<Rightarrow>
          (case get_node (treeobj m) parent_node_id of
             None \<Rightarrow> (False, m)
           | Some parent_node \<Rightarrow>
               if parent_node_id = [] then (False, m)
               else
                 (case child_urls_loop m (children parent_node) [] of
                    None \<Rightarrow> (False, change_key_ordered_url_hash m parent_val None)
                  | Some child_urls \<Rightarrow>
                      let ordered_url_hash = orderedHashOfStrings (Array child_urls) in
                      (case by_ordered_url_hash m ordered_url_hash of
                         Some other_win_val \<Rightarrow>
                           if same_object parent_val other_win_val then (True, m)
                           else (False, change_key_ordered_url_hash m parent_val None)
                       | None \<Rightarrow>
                           (True, change_key_ordered_url_hash m parent_val
                                    (Some ordered_url_hash))))))"

subsection \<open>Adding model items\<close>

text \<open>A record with the defaults of a store: every field absent.\<close>

definition blank :: val where
  "blank = \<lparr>ty = IT_WIN, node_id = [], win_id = 0, tab_id = 0, index = 0, win = None,
             tab = None, raw_url = None, raw_title = None, raw_bullet = None,
             raw_favicon_url = None, isOpen = False, isPinned = False, keep = None,
             ordered_url_hash = None\<rparr>"

text \<open>\<open>module.vnRezWin(isFirstChild)\<close>; \<open>pick\<close> is the choice of the tree in \<open>create_node\<close>.\<close>

definition vnRezWin :: "model \<Rightarrow> bool \<Rightarrow> string option \<Rightarrow> vn \<times> model" where
  "vnRezWin m isFirstChild pick =
     (case create_node (treeobj m) jstree_root [Raw ''Window'']
             (if isFirstChild then At 1 else Last) pick of
        (None, t) \<Rightarrow> (VN_NONE, m)
      | (Some n, t) \<Rightarrow>
          let m1 = m\<lparr>treeobj := add_multitype t n (type_tag IT_WIN)\<rparr> in
          (case windows_add m1
                  (blank\<lparr>win_id := NONE, node_id := n, win := None, raw_title := None,
                         raw_bullet := None, isOpen := False, keep := None\<rparr>) of
             (None, m2) \<Rightarrow> (VN_NONE, m2\<lparr>treeobj := delete_node (treeobj m2) n\<rparr>)
           | (Some v, m2) \<Rightarrow>
               let m3 = snd (refresh_label m2 n);
                   m4 = snd (refresh_icon m3 (Val v))
               in ((Some v, n), m4)))"

text \<open>\<open>module.vnRezTab(vornyParent)\<close>.\<close>

definition vnRezTab :: "model \<Rightarrow> vorny \<Rightarrow> string option \<Rightarrow> vn \<times> model" where
  "vnRezTab m vornyParent pick =
     (case vn_by_vorny m vornyParent None of
        (None, parent_node_id) \<Rightarrow> (VN_NONE, m)
      | (Some parent_val, parent_node_id) \<Rightarrow>
          if parent_node_id = [] then (VN_NONE, m)
          else
            (case get_node (treeobj m) parent_node_id of
               None \<Rightarrow> (VN_NONE, m)
             | Some parent_node \<Rightarrow>
                 (case create_node (treeobj m) parent_node_id [Raw ''Tab''] Last pick of
                    (None, t) \<Rightarrow> (VN_NONE, m)
                  | (Some n, t) \<Rightarrow>
                      let m1 = m\<lparr>treeobj := add_multitype t n (type_tag IT_TAB)\<rparr> in
                      (case tabs_add m1
                              (blank\<lparr>tab_id := NONE, node_id := n, win_id := NONE,
                                     index := NONE, tab := None, isOpen := False,
                                     isPinned := False\<rparr>) of
                         (None, m2) \<Rightarrow> (VN_NONE, m2\<lparr>treeobj := delete_node (treeobj m2) n\<rparr>)
                       | (Some v, m2) \<Rightarrow>
                           let m3 = snd (refresh_label m2 n);
                               m4 = snd (refresh_icon m3 (Val v))
                           in ((Some v, n), m4)))))"

subsection \<open>Attaching Chrome widgets to model items\<close>

text \<open>\<open>module.markWinAsOpen(win_vorny, cwin)\<close>; a falsy \<open>cwin\<close> is \<open>None\<close>, a falsy
  \<open>cwin.id\<close> is 0.\<close>

definition markWinAsOpen :: "model \<Rightarrow> vorny \<Rightarrow> chrome_window option \<Rightarrow> bool \<times> model" where
  "markWinAsOpen m win_vorny cwin =
     (case cwin of
        None \<Rightarrow> (False, m)
      | Some cw \<Rightarrow>
          if win_vorny = Falsy \<or> win_vorny = NodeId [] \<or> cw_id cw = 0 then (False, m)
          else
            (case vn_by_vorny m win_vorny (Some IT_WIN) of
               (None, n) \<Rightarrow> (False, m)
             | (Some v, n) \<Rightarrow>
                 if n = [] then (False, m)
                 else if isOpen v \<or> win v \<noteq> None
                 then (False,
                       m\<lparr>info_log := info_log m @
                           [(''Refusing to re-mark already-open window as open'', v)]\<rparr>)
                 else
                   (case get_node (treeobj m) n of
                      None \<Rightarrow> (False, m)
                    | Some node \<Rightarrow>
                        let m1 = m\<lparr>treeobj := open_node (treeobj m) n\<rparr>;
                            m2 = change_key_win_id m1 v (cw_id cw);
                            v1 = v\<lparr>win_id := cw_id cw\<rparr>;
                            v2 = v1\<lparr>win := Some cw\<rparr>;
                            m3 = put_val m2 v2;
                            v3 = v2\<lparr>isOpen := True\<rparr>;
                            m4 = put_val m3 v3;
                            m5 = m4\<lparr>treeobj := add_multitype (treeobj m4) n NST_OPEN\<rparr>;
                            m6 = snd (refresh_label m5 n);
                            m7 = snd (refresh_icon m6 (Val v3))
                        in (True, m7))))"

text \<open>\<open>module.markTabAsOpen(tab_vorny, ctab)\<close>.\<close>

definition markTabAsOpen :: "model \<Rightarrow> vorny \<Rightarrow> chrome_tab option \<Rightarrow> bool \<times> model" where
  "markTabAsOpen m tab_vorny ctab =
     (case ctab of
        None \<Rightarrow> (False, m)
      | Some ct \<Rightarrow>
          if tab_vorny = Falsy \<or> tab_vorny = NodeId [] \<or> ct_id ct = 0 then (False, m)
          else
            (case vn_by_vorny m tab_vorny (Some IT_TAB) of
               (None, n) \<Rightarrow> (False, m)
             | (Some v, n) \<Rightarrow>
                 if n = [] then (False, m)
                 else if isOpen v \<or> tab v \<noteq> None
                 then (False,
                       m\<lparr>info_log := info_log m @
                           [(''Refusing to re-mark already-open tab as open'', v)]\<rparr>)
                 else
                   (case get_node (treeobj m) n of
                      None \<Rightarrow> (False, m)
                    | Some node \<Rightarrow>
                        let m1 = change_key_tab_id m v (ct_id ct);
                            v1 = v\<lparr>tab_id := ct_id ct\<rparr>;
                            v2 = v1\<lparr>win_id := ct_windowId ct, index := ct_index ct,
                                    tab := Some ct, raw_url := ct_url ct,
                                    raw_title := ct_title ct, isOpen := True,
                                    raw_favicon_url := ct_favIconUrl ct,
                                    isPinned := ct_pinned ct\<rparr>;
                            m2 = put_val m1 v2;
                            m3 = m2\<lparr>treeobj := add_multitype (treeobj m2) n NST_OPEN\<rparr>;
                            m4 = snd (refresh_label m3 n);
                            m5 = snd (refresh_icon m4 (Val v2));
                            m6 = (case parent node of
                                    None \<Rightarrow> m5
                                  | Some p \<Rightarrow> m5\<lparr>treeobj := open_node (treeobj m5) p\<rparr>)
                        in (True, m6))))"

subsection \<open>Removing Chrome widgets from model items\<close>

text \<open>\<open>module.markWinAsClosed(win_vorny)\<close>.\<close>

definition markWinAsClosed :: "model \<Rightarrow> vorny \<Rightarrow> bool \<times> model" where
  "markWinAsClosed m win_vorny =
     (case vn_by_vorny m win_vorny (Some IT_WIN) of
        (None, n) \<Rightarrow> (False, m)
      | (Some v, n) \<Rightarrow>
          if n = [] then (False, m)
          else if \<not> isOpen v \<or> win v = None
          then (False,
                m\<lparr>info_log := info_log m @
                    [(''Refusing to re-mark already-closed window as closed'', v)]\<rparr>)
          else
            let m1 = change_key_win_id m v NONE;
                v1 = v\<lparr>win_id := NONE\<rparr>;
                v2 = v1\<lparr>win := None, isOpen := False\<rparr>;
                m2 = put_val m1 v2;
                m3 = m2\<lparr>treeobj := del_multitype (treeobj m2) n NST_OPEN\<rparr>;
                m4 = snd (refresh_label m3 n);
                m5 = snd (refresh_icon m4 (Val v2))
            in (True, m5))"

text \<open>\<open>module.markTabAsClosed(tab_vorny)\<close>.\<close>

definition markTabAsClosed :: "model \<Rightarrow> vorny \<Rightarrow> bool \<times> model" where
  "markTabAsClosed m tab_vorny =
     (case vn_by_vorny m tab_vorny (Some IT_TAB) of
        (None, n) \<Rightarrow> (False, m)
      | (Some v, n) \<Rightarrow>
          if n = [] then (False, m)
          else
            (case get_node (treeobj m) n of
               None \<Rightarrow> (False, m)
             | Some node \<Rightarrow>
                 if \<not> isOpen v \<or> tab v = None
                 then (False,
                       m\<lparr>info_log := info_log m @
                           [(''Refusing to re-mark already-closed tab as closed'', v)]\<rparr>)
                 else
                   let m1 = change_key_tab_id m v NONE;
                       v1 = v\<lparr>tab_id := NONE\<rparr>;
                       v2 = v1\<lparr>win_id := NONE, index := NONE, tab := None, isOpen := False\<rparr>;
                       m2 = put_val m1 v2;
                       m3 = m2\<lparr>treeobj := del_multitype (treeobj m2) n NST_OPEN\<rparr>;
                       m4 = snd (refresh_label m3 n)
                   in (True, m4)))"

subsection \<open>Removing model items\<close>

text \<open>\<open>module.eraseTab(tab_vorny)\<close>.\<close>

definition eraseTab :: "model \<Rightarrow> vorny \<Rightarrow> bool \<times> model" where
  "eraseTab m tab_vorny =
     (case vn_by_vorny m tab_vorny (Some IT_TAB) of
        (None, n) \<Rightarrow> (False, m)
      | (Some v, n) \<Rightarrow>
          if n = [] \<or> get_node (treeobj m) n = None then (False, m)
          else
            let m1 = tabs_remove_value m v
            in (True, m1\<lparr>treeobj := delete_node (treeobj m1) n\<rparr>))"

text \<open>The loop of \<open>eraseWin\<close> over the children of the node, as \<open>get_node\<close> gave them:
  it leaves at the first child that \<open>eraseTab\<close> does not erase.\<close>

fun erase_children :: "model \<Rightarrow> string list \<Rightarrow> bool \<times> model" where
  "erase_children m [] = (True, m)"
| "erase_children m (child_node_id # rest) =
     (case eraseTab m (NodeId child_node_id) of
        (False, m1) \<Rightarrow> (False, m1)
      | (True, m1) \<Rightarrow> erase_children m1 rest)"

text \<open>\<open>module.eraseWin(win_vorny)\<close>.\<close>

definition eraseWin :: "model \<Rightarrow> vorny \<Rightarrow> bool \<times> model" where
  "eraseWin m win_vorny =
     (case vn_by_vorny m win_vorny (Some IT_WIN) of
        (None, n) \<Rightarrow> (False, m)
      | (Some v, n) \<Rightarrow>
          if n = [] then (False, m)
          else
            (case get_node (treeobj m) n of
               None \<Rightarrow> (False, m)
             | Some node \<Rightarrow>
                 (case erase_children m (children node) of
                    (False, m1) \<Rightarrow> (False, m1)
                  | (True, m1) \<Rightarrow>
                      let m2 = windows_remove_value m1 v
                      in (True, m2\<lparr>treeobj := delete_node (treeobj m2) n\<rparr>))))"

section \<open>Notions used in the statements\<close>

text \<open>The suffix that \<open>mark_win_as_unsaved\<close> appends.\<close>

definition unsaved_suffix :: string where
  "unsaved_suffix = '' (Unsaved)''"

text \<open>What \<open>remove_unsaved_markers\<close> makes of a string.\<close>

definition strip_markers :: "string \<Rightarrow> string" where
  "strip_markers s =
     (case re_match s of Some i \<Rightarrow> if 0 < i then take i s else s | None \<Rightarrow> s)"

text \<open>A title with a character that is not white space, and which is not as a whole a run
  of markers (so that a run of markers at its end does not start at its first character).\<close>

definition proper_title :: "string \<Rightarrow> bool" where
  "proper_title t = (\<not> list_all is_space t \<and> \<not> match_groups t)"

text \<open>The hash that the store holds for the window with node id \<open>n\<close>.\<close>

definition hash_of :: "model \<Rightarrow> string \<Rightarrow> string option" where
  "hash_of m n = (case windows m n of None \<Rightarrow> None | Some v \<Rightarrow> ordered_url_hash v)"

text \<open>
  The consistency of the Keyed Store: a record is stored under its own node id and in the
  store of its kind; every window with a hash is the one the index gives for that hash;
  every entry of the index leads to a window that holds that hash.
\<close>

definition store_ok :: "model \<Rightarrow> bool" where
  "store_ok m =
     ((\<forall>n v. windows m n = Some v \<longrightarrow> ty v = IT_WIN \<and> node_id v = n) \<and>
      (\<forall>n v. tabs m n = Some v \<longrightarrow> ty v = IT_TAB \<and> node_id v = n) \<and>
      (\<forall>n v h. windows m n = Some v \<and> ordered_url_hash v = Some h
                  \<longrightarrow> windows_by_hash m h = Some n) \<and>
      (\<forall>h n. windows_by_hash m h = Some n
                  \<longrightarrow> (\<exists>v. windows m n = Some v \<and> ordered_url_hash v = Some h)))"

text \<open>The shape of a tree: the children and the ancestors of a node are nodes.\<close>

definition tree_ok :: "tree \<Rightarrow> bool" where
  "tree_ok t =
     (\<forall>k x. t k = Some x \<longrightarrow> set (children x) \<subseteq> dom t \<and> set (parents x) \<subseteq> dom t)"

text \<open>Invariant 1 of the specification: but for the root, a node has a record and a
  record has a node.\<close>

definition paired :: "model \<Rightarrow> bool" where
  "paired m =
     (\<forall>n. n \<noteq> jstree_root \<longrightarrow> (treeobj m n \<noteq> None) = (val_by_node_id m n \<noteq> None))"

text \<open>The children \<open>cs\<close> of the node \<open>n\<close> in the tree: each is listed once and has \<open>n\<close> as
  its parent, and none is \<open>n\<close>, an ancestor of \<open>n\<close> or an ancestor of another.\<close>

definition children_ok :: "tree \<Rightarrow> string \<Rightarrow> string list \<Rightarrow> bool" where
  "children_ok t n cs =
     (distinct cs \<and> n \<notin> set cs \<and>
      (\<forall>x. t n = Some x \<longrightarrow> set (parents x) \<inter> set cs = {}) \<and>
      (\<forall>c x. c \<in> set cs \<and> t c = Some x
               \<longrightarrow> parent x = Some n \<and> set (parents x) \<inter> set cs = {}))"

text \<open>The record of a tab after \<open>markTabAsOpen\<close> with the browser tab \<open>ct\<close>, and after
  \<open>markTabAsClosed\<close>.\<close>

definition tab_after_open :: "val \<Rightarrow> chrome_tab \<Rightarrow> val" where
  "tab_after_open v ct =
     v\<lparr>tab_id := ct_id ct, win_id := ct_windowId ct, index := ct_index ct, tab := Some ct,
       raw_url := ct_url ct, raw_title := ct_title ct, isOpen := True,
       raw_favicon_url := ct_favIconUrl ct, isPinned := ct_pinned ct\<rparr>"

definition tab_after_close :: "val \<Rightarrow> val" where
  "tab_after_close v =
     v\<lparr>tab_id := NONE, win_id := NONE, index := NONE, tab := None, isOpen := False\<rparr>"

text \<open>The place of a node in the tree: its parent, its ancestors and its children.\<close>

definition place :: "node \<Rightarrow> string option \<times> string list \<times> string list" where
  "place x = (parent x, parents x, children x)"


text \<open>A reference to a window item: \<open>r\<close> resolves (as \<open>vn_by_vorny\<close> resolves it for a
  window) to the record \<open>v\<close> that the window store holds under the node id \<open>n\<close>, and \<open>nd\<close>
  is the node of that id in the tree.\<close>

definition window_ref :: "model \<Rightarrow> vorny \<Rightarrow> string \<Rightarrow> val \<Rightarrow> node \<Rightarrow> bool" where
  "window_ref m r n v nd =
     (vn_by_vorny m r (Some IT_WIN) = (Some v, n) \<and> windows m n = Some v \<and>
      get_node (treeobj m) n = Some nd)"

text \<open>The records that \<open>vnRezWin\<close> and \<open>vnRezTab\<close> add for the node id \<open>n\<close>.\<close>

definition fresh_win :: "string \<Rightarrow> val" where
  "fresh_win n =
     blank\<lparr>win_id := NONE, node_id := n, win := None, raw_title := None, raw_bullet := None,
           isOpen := False, keep := None, ty := IT_WIN\<rparr>"

definition fresh_tab :: "string \<Rightarrow> val" where
  "fresh_tab n =
     blank\<lparr>tab_id := NONE, node_id := n, win_id := NONE, index := NONE, tab := None,
           isOpen := False, isPinned := False, ty := IT_TAB\<rparr>"

text \<open>What the tree answers to the \<open>create_node\<close> call of \<open>vnRezWin\<close>, and to that of
  \<open>vnRezTab\<close> under the parent \<open>parent_node_id\<close>: the new id (or the refusal) and the tree
  with the new node.\<close>

definition win_node :: "model \<Rightarrow> bool \<Rightarrow> string option \<Rightarrow> string option \<times> tree" where
  "win_node m isFirstChild pick =
     create_node (treeobj m) jstree_root [Raw ''Window'']
       (if isFirstChild then At 1 else Last) pick"

definition tab_node :: "model \<Rightarrow> string \<Rightarrow> string option \<Rightarrow> string option \<times> tree" where
  "tab_node m parent_node_id pick =
     create_node (treeobj m) parent_node_id [Raw ''Tab''] Last pick"
section \<open>An example state\<close>

text \<open>Two closed windows under the root, each with two closed tabs; the tabs of both
  windows have the addresses \<open>http://x\<close> and \<open>http://y\<close>, in this order.\<close>

definition ex_node :: "string option \<Rightarrow> string list \<Rightarrow> string list \<Rightarrow> string \<Rightarrow> node" where
  "ex_node p ps cs tag =
     \<lparr>parent = p, parents = ps, children = cs, label = [], icon = IconTrue,
      multitype = {tag}, opened = False\<rparr>"

definition ex_win :: "string \<Rightarrow> val" where
  "ex_win n = blank\<lparr>ty := IT_WIN, node_id := n, win_id := NONE\<rparr>"

definition ex_tab :: "string \<Rightarrow> string \<Rightarrow> val" where
  "ex_tab n url =
     blank\<lparr>ty := IT_TAB, node_id := n, tab_id := NONE, win_id := NONE, index := NONE,
           raw_url := Some url\<rparr>"

definition ex_tree :: tree where
  "ex_tree =
     [''#'' \<mapsto> ex_node None [] [''w1'', ''w2''] ''root'',
      ''w1'' \<mapsto> ex_node (Some ''#'') [''#''] [''t1'', ''t2''] ''win'',
      ''w2'' \<mapsto> ex_node (Some ''#'') [''#''] [''t3'', ''t4''] ''win'',
      ''t1'' \<mapsto> ex_node (Some ''w1'') [''w1'', ''#''] [] ''tab'',
      ''t2'' \<mapsto> ex_node (Some ''w1'') [''w1'', ''#''] [] ''tab'',
      ''t3'' \<mapsto> ex_node (Some ''w2'') [''w2'', ''#''] [] ''tab'',
      ''t4'' \<mapsto> ex_node (Some ''w2'') [''w2'', ''#''] [] ''tab'']"

definition ex_model :: model where
  "ex_model =
     \<lparr>windows = [''w1'' \<mapsto> ex_win ''w1'', ''w2'' \<mapsto> ex_win ''w2''],
      windows_by_hash = Map.empty,
      tabs = [''t1'' \<mapsto> ex_tab ''t1'' ''http://x'', ''t2'' \<mapsto> ex_tab ''t2'' ''http://y'',
              ''t3'' \<mapsto> ex_tab ''t3'' ''http://x'', ''t4'' \<mapsto> ex_tab ''t4'' ''http://y''],
      treeobj = ex_tree,
      info_log = []\<rparr>"

text \<open>The example with the record \<open>v\<close> in place of the window or tab of its node id.\<close>

definition ex_with :: "val \<Rightarrow> model" where
  "ex_with v = put_val ex_model v"

text \<open>A window whose custom title is a marker and nothing else.\<close>

definition c8_bad :: val where
  "c8_bad = (ex_win ''w1'')\<lparr>raw_title := Some '' (Unsaved)'', keep := Some True\<rparr>"

text \<open>A browser window and a browser tab, and the records of the window \<open>w1\<close> and the tab
  \<open>t1\<close> of the example when they are open.\<close>

definition ex_cwin :: chrome_window where
  "ex_cwin = \<lparr>cw_id = 7\<rparr>"

definition ex_ctab :: chrome_tab where
  "ex_ctab =
     \<lparr>ct_id = 5, ct_windowId = 7, ct_index = 0, ct_url = Some ''http://z'',
      ct_title = Some ''Z'', ct_favIconUrl = Some ''http://z/favicon.ico'', ct_pinned = True\<rparr>"

definition ex_open_win :: val where
  "ex_open_win = (ex_win ''w1'')\<lparr>win_id := 7, win := Some ex_cwin, isOpen := True\<rparr>"

definition ex_open_tab :: val where
  "ex_open_tab = tab_after_open (ex_tab ''t1'' ''http://x'') ex_ctab"


text \<open>The hash of the addresses \<open>http://x\<close>, \<open>http://y\<close>.\<close>

definition ex_hash :: string where
  "ex_hash = orderedHashOfStrings (Array [''http://x'', ''http://y''])"

text \<open>The example with a third window \<open>w3\<close>, whose tabs \<open>t5\<close> and \<open>t6\<close> have the same two
  addresses; and the states after \<open>updateOrderedURLHash\<close> on \<open>w3\<close>, then on \<open>w1\<close>, then on
  \<open>w2\<close>.\<close>

definition ex3_tree :: tree where
  "ex3_tree =
     ex_tree(''#'' \<mapsto> ex_node None [] [''w1'', ''w2'', ''w3''] ''root'',
             ''w3'' \<mapsto> ex_node (Some ''#'') [''#''] [''t5'', ''t6''] ''win'',
             ''t5'' \<mapsto> ex_node (Some ''w3'') [''w3'', ''#''] [] ''tab'',
             ''t6'' \<mapsto> ex_node (Some ''w3'') [''w3'', ''#''] [] ''tab'')"

definition ex3_model :: model where
  "ex3_model =
     ex_model\<lparr>windows := (windows ex_model)(''w3'' \<mapsto> ex_win ''w3''),
              tabs := (tabs ex_model)(''t5'' \<mapsto> ex_tab ''t5'' ''http://x'',
                                      ''t6'' \<mapsto> ex_tab ''t6'' ''http://y''),
              treeobj := ex3_tree\<rparr>"

definition c1_m1 :: model where
  "c1_m1 = snd (updateOrderedURLHash ex3_model (NodeId ''w3''))"

definition c1_m2 :: model where
  "c1_m2 = snd (updateOrderedURLHash c1_m1 (NodeId ''w1''))"

definition c1_m3 :: model where
  "c1_m3 = snd (updateOrderedURLHash c1_m2 (NodeId ''w2''))"

text \<open>The example after the window \<open>w1\<close> has received its hash and the tab \<open>t2\<close> has then
  lost its address.\<close>

definition c4_model :: model where
  "c4_model =
     ex_model\<lparr>windows := (windows ex_model)
                  (''w1'' \<mapsto> (ex_win ''w1'')\<lparr>ordered_url_hash := Some ex_hash\<rparr>),
              windows_by_hash := [ex_hash \<mapsto> ''w1''],
              tabs := (tabs ex_model)(''t2'' \<mapsto> (ex_tab ''t2'' [])\<lparr>raw_url := None\<rparr>)\<rparr>"

text \<open>The example with two records that have no node: a window under \<open>w9\<close> and a tab under
  \<open>t9\<close>.\<close>

definition c2_model :: model where
  "c2_model = ex_model\<lparr>windows := (windows ex_model)(''w9'' \<mapsto> ex_win ''w9''),
                       tabs := (tabs ex_model)(''t9'' \<mapsto> ex_tab ''t9'' [])\<rparr>"

text \<open>The example without the record of the tab \<open>t2\<close>, whose node is still in the tree.\<close>

definition c3_model :: model where
  "c3_model = ex_model\<lparr>tabs := (tabs ex_model)(''t2'' := None)\<rparr>"
section \<open>The marker expression\<close>

lemma length_marker: "length marker = 9"
  by (simp add: marker_def)

lemma is_marker_length: "is_marker m \<Longrightarrow> length m = 9"
  unfolding is_marker_def using length_marker by (metis length_map)

lemma canonicalize_paren: "canonicalize c = 40 \<Longrightarrow> \<not> is_space c"
  by (auto simp: canonicalize_def is_space_def Let_def split: if_splits)


lemma canonicalize_marker: "map canonicalize marker = [40, 85, 78, 83, 65, 86, 69, 68, 41]"
  by (simp add: marker_def canonicalize_def)

lemma is_marker_Cons: "is_marker m \<Longrightarrow> \<exists>c cs. m = c # cs \<and> \<not> is_space c"
proof -
  assume a: "is_marker m"
  then obtain c cs where m: "m = c # cs"
    using is_marker_length [of m] by (cases m) auto
  from a have "canonicalize c = 40"
    unfolding m is_marker_def canonicalize_marker by simp
  then show ?thesis using m canonicalize_paren by blast
qed

lemma dropWhile_spaces_marker:
  assumes "list_all is_space w" "is_marker mk"
  shows "dropWhile is_space (w @ mk @ t) = mk @ t"
proof -
  obtain c cs where mk: "mk = c # cs" and c: "\<not> is_space c"
    using is_marker_Cons [OF assms(2)] by blast
  have "dropWhile is_space (w @ mk @ t) = dropWhile is_space (mk @ t)"
    using assms(1) by (simp add: list_all_iff dropWhile_append2)
  then show ?thesis using mk c by simp
qed

lemma match_groups_intro:
  assumes "w \<noteq> []" "list_all is_space w" "is_marker mk"
    and "list_all is_space t \<or> match_groups t"
  shows "match_groups (w @ mk @ t)"
proof -
  have r: "dropWhile is_space (w @ mk @ t) = mk @ t"
    by (rule dropWhile_spaces_marker [OF assms(2,3)])
  have ne: "mk @ t \<noteq> w @ mk @ t" using assms(1) by simp
  have len: "length mk = length marker"
    using is_marker_length [OF assms(3)] length_marker by simp
  have sp: "list_all is_space t \<Longrightarrow> dropWhile is_space t = []"
    by (simp add: list_all_iff)
  show ?thesis
    using assms(1,3,4) sp
    by (subst match_groups.simps) (auto simp: r len Let_def)
qed

lemma marker_run_imp_match: "marker_run s \<Longrightarrow> match_groups s"
  by (induction rule: marker_run.induct) (auto intro: match_groups_intro)

lemma match_imp_marker_run: "match_groups s \<Longrightarrow> marker_run s"
proof (induction s rule: match_groups.induct)
  case (1 s)
  define r where "r = dropWhile is_space s"
  define t where "t = drop (length marker) r"
  have u: "match_groups s =
     (if r = s \<or> \<not> is_marker (take (length marker) r) then False
      else if dropWhile is_space t = [] then True else match_groups t)"
    unfolding r_def t_def by (subst match_groups.simps) (simp add: Let_def)
  from "1.prems" u have c: "r \<noteq> s" "is_marker (take (length marker) r)"
    and d: "dropWhile is_space t = [] \<or> match_groups t"
    by (auto split: if_splits)
  have s: "s = takeWhile is_space s @ take (length marker) r @ t"
    unfolding t_def r_def by simp
  have w: "takeWhile is_space s \<noteq> []"
    using c(1) unfolding r_def by (metis append_Nil takeWhile_dropWhile_id)
  have ws: "list_all is_space (takeWhile is_space s)"
    by (simp add: list_all_iff) (meson set_takeWhileD)
  show ?case
  proof (cases "dropWhile is_space t = []")
    case True
    then have "list_all is_space t" by (simp add: list_all_iff)
    then show ?thesis using marker_run.last_group [OF w ws c(2)] s by metis
  next
    case False
    then have "match_groups t" using d by blast
    then have "marker_run t"
      using "1.IH" [OF r_def _ t_def False] c by simp
    then show ?thesis using marker_run.more_groups [OF w ws c(2)] s by metis
  qed
qed

lemma match_groups_iff: "match_groups s \<longleftrightarrow> marker_run s"
  using marker_run_imp_match match_imp_marker_run by blast

lemma marker_run_length: "marker_run s \<Longrightarrow> 10 \<le> length s"
  by (induction rule: marker_run.induct) (auto dest: is_marker_length simp: Suc_le_eq)

lemma is_marker_marker: "is_marker marker"
  by (simp add: is_marker_def)

lemma unsaved_suffix_eq: "unsaved_suffix = '' '' @ marker"
  by (simp add: unsaved_suffix_def marker_def)

lemma marker_run_suffix: "marker_run unsaved_suffix"
proof -
  have "marker_run ('' '' @ marker @ [])"
    by (rule marker_run.last_group) (simp_all add: is_marker_marker is_space_def)
  then show ?thesis by (simp add: unsaved_suffix_eq)
qed

lemma marker_run_spaces_append:
  assumes "list_all is_space w" "marker_run b"
  shows "marker_run (w @ b)"
  using assms(2)
proof (cases rule: marker_run.cases)
  case (last_group w' m t)
  have "marker_run ((w @ w') @ m @ t)"
    using last_group assms(1) by (intro marker_run.last_group) auto
  then show ?thesis using last_group by simp
next
  case (more_groups w' m t)
  have "marker_run ((w @ w') @ m @ t)"
    using more_groups assms(1) by (intro marker_run.more_groups) auto
  then show ?thesis using more_groups by simp
qed

lemma marker_run_append: "marker_run a \<Longrightarrow> marker_run b \<Longrightarrow> marker_run (a @ b)"
proof (induction rule: marker_run.induct)
  case (last_group w m t)
  have "marker_run (t @ b)"
    using marker_run_spaces_append [OF last_group(4) last_group(5)] .
  then have "marker_run (w @ m @ (t @ b))"
    using last_group by (intro marker_run.more_groups)
  then show ?case by simp
next
  case (more_groups w m t)
  have "marker_run (w @ m @ (t @ b))"
    using more_groups by (intro marker_run.more_groups) auto
  then show ?case by simp
qed

lemma marker_run_before_suffix:
  "marker_run x \<Longrightarrow> x = b @ unsaved_suffix \<Longrightarrow> list_all is_space b \<or> marker_run b"
proof (induction arbitrary: b rule: marker_run.induct)
  case (last_group w m t)
  have t: "t = []"
  proof (rule ccontr)
    assume "t \<noteq> []"
    then have "last t = last (b @ unsaved_suffix)"
      using last_group(5) by (metis last_appendR append_is_Nil_conv)
    then have "last t = CHR '')''" by (simp add: unsaved_suffix_def)
    moreover have "is_space (last t)"
      using last_group(4) \<open>t \<noteq> []\<close> by (simp add: list_all_iff)
    ultimately show False by (simp add: is_space_def)
  qed
  have "w @ m = (b @ '' '') @ marker"
    using last_group(5) t by (simp add: unsaved_suffix_eq)
  moreover have "length m = length marker"
    using is_marker_length [OF last_group(3)] length_marker by simp
  ultimately have "w = b @ '' ''" by (metis append_eq_append_conv)
  then show ?case using last_group(2) by simp
next
  case (more_groups w m t)
  have len: "10 \<le> length t" by (rule marker_run_length [OF more_groups(4)])
  have "(w @ m) @ t = b @ unsaved_suffix" using more_groups(6) by simp
  then obtain u where u: "(w @ m = b @ u \<and> u @ t = unsaved_suffix) \<or> ((w @ m) @ u = b \<and> t = u @ unsaved_suffix)"
    unfolding append_eq_append_conv2 by blast
  show ?case
  proof (cases "w @ m = b @ u \<and> u @ t = unsaved_suffix")
    case True
    then have "length (u @ t) = length unsaved_suffix" by simp
    then have "length u + length t = 10" by (simp add: unsaved_suffix_def)
    then have "length u = 0" using len by arith
    then have "u = []" by simp
    then have "b = w @ m @ []" using True by simp
    moreover have "marker_run (w @ m @ [])"
      using more_groups(1,2,3) by (intro marker_run.last_group) auto
    ultimately show ?thesis by simp
  next
    case False
    then have b: "b = w @ m @ u" and tu: "t = u @ unsaved_suffix" using u by auto
    from more_groups.IH [OF tu] have "marker_run (w @ m @ u)"
      using more_groups(1,2,3)
      by (auto intro: marker_run.last_group marker_run.more_groups)
    then show ?thesis using b by simp
  qed
qed


lemma not_match_Nil: "\<not> match_groups []"
  by (subst match_groups.simps) simp

lemma re_search_None:
  "re_search s i = None \<longleftrightarrow> (\<forall>j<length s. \<not> match_groups (drop j s))"
proof (induction s arbitrary: i)
  case Nil
  then show ?case by simp
next
  case (Cons c cs)
  have "(\<forall>j<Suc (length cs). \<not> match_groups (drop j (c # cs))) \<longleftrightarrow>
        (\<not> match_groups (c # cs) \<and> (\<forall>j<length cs. \<not> match_groups (drop j cs)))"
    by (auto simp: less_Suc_eq_0_disj)
  then show ?case using Cons.IH by simp
qed

lemma re_search_Some:
  "re_search s i = Some k \<Longrightarrow>
     \<exists>j. k = i + j \<and> j < length s \<and> match_groups (drop j s) \<and>
         (\<forall>j'<j. \<not> match_groups (drop j' s))"
proof (induction s arbitrary: i)
  case Nil
  then show ?case by simp
next
  case (Cons c cs)
  show ?case
  proof (cases "match_groups (c # cs)")
    case True
    then have "k = i" using Cons.prems by simp
    then show ?thesis using True by (intro exI [of _ 0]) simp
  next
    case False
    then have "re_search cs (Suc i) = Some k" using Cons.prems by simp
    from Cons.IH [OF this] obtain j where j: "k = Suc i + j" "j < length cs"
      "match_groups (drop j cs)" "\<forall>j'<j. \<not> match_groups (drop j' cs)"
      by blast
    have "\<forall>j'<Suc j. \<not> match_groups (drop j' (c # cs))"
      using False j(4) by (auto simp: less_Suc_eq_0_disj)
    then show ?thesis using j by (intro exI [of _ "Suc j"]) simp
  qed
qed

lemma re_match_None: "re_match s = None \<longleftrightarrow> (\<forall>j. \<not> match_groups (drop j s))"
proof -
  have "\<not> match_groups (drop j s)" if "length s \<le> j" for j
    using that not_match_Nil by simp
  then show ?thesis
    unfolding re_match_def re_search_None by (metis not_le_imp_less)
qed

lemma re_match_Some:
  "re_match s = Some i \<Longrightarrow>
     i < length s \<and> match_groups (drop i s) \<and> (\<forall>j<i. \<not> match_groups (drop j s))"
  unfolding re_match_def using re_search_Some [of s 0 i] by auto

lemma re_match_Some_0: "re_match s = Some 0 \<longleftrightarrow> match_groups s"
proof
  assume "re_match s = Some 0"
  from re_match_Some [OF this] show "match_groups s" by simp
next
  assume m: "match_groups s"
  then obtain c cs where "s = c # cs" using not_match_Nil by (cases s) auto
  then show "re_match s = Some 0" using m by (simp add: re_match_def)
qed

lemma remove_unsaved_markers_Str: "remove_unsaved_markers (Str s) = Str (strip_markers s)"
  by (cases s) (auto simp: strip_markers_def re_match_def split: option.splits)

lemma drop_take_drop: "j \<le> i \<Longrightarrow> drop j s = drop j (take i s) @ drop i s"
proof (cases "i \<le> length s")
  case True
  assume a: "j \<le> i"
  have "drop j (take i s @ drop i s) = drop j (take i s) @ drop i s"
    using a True by (simp del: append_take_drop_id add: min_def)
  then show ?thesis by simp
next
  case False
  then show ?thesis by simp
qed

lemma strip_markers_no_run:
  assumes "\<not> match_groups s"
  shows "re_match (strip_markers s) = None"
proof (cases "re_match s")
  case None
  then show ?thesis by (simp add: strip_markers_def)
next
  case (Some i)
  note i = re_match_Some [OF Some]
  have pos: "0 < i" using assms i by (cases i) auto
  have "\<not> match_groups (drop j (take i s))" for j
  proof
    assume a: "match_groups (drop j (take i s))"
    then have "j < i" using not_match_Nil by (cases "j < i") auto
    have "marker_run (drop j (take i s) @ drop i s)"
      using a i by (intro marker_run_append) (simp_all add: match_groups_iff)
    then have "match_groups (drop j s)"
      using drop_take_drop [of j i s] \<open>j < i\<close> by (simp add: match_groups_iff)
    then show False using i \<open>j < i\<close> by blast
  qed
  then show ?thesis using Some pos by (simp add: strip_markers_def re_match_None)
qed

lemma proper_title_strip:
  assumes "proper_title t"
  shows "proper_title (strip_markers t)"
proof (cases "re_match t")
  case None
  then show ?thesis using assms by (simp add: strip_markers_def)
next
  case (Some i)
  note i = re_match_Some [OF Some]
  have pos: "0 < i" using assms i by (cases i) (auto simp: proper_title_def)
  have t: "t = take i t @ drop i t" by simp
  have run: "marker_run (drop i t)" using i by (simp add: match_groups_iff)
  have "\<not> list_all is_space (take i t)"
  proof
    assume "list_all is_space (take i t)"
    from marker_run_spaces_append [OF this run] show False
      using assms by (simp add: proper_title_def match_groups_iff)
  qed
  moreover have "\<not> match_groups (take i t)"
  proof
    assume "match_groups (take i t)"
    then have "marker_run (take i t @ drop i t)"
      using run by (intro marker_run_append) (simp_all add: match_groups_iff)
    then show False using assms by (simp add: proper_title_def match_groups_iff)
  qed
  ultimately show ?thesis using Some pos by (simp add: strip_markers_def proper_title_def)
qed

lemma proper_title_suffix:
  assumes "proper_title b"
  shows "proper_title (b @ unsaved_suffix)"
proof -
  have "\<not> list_all is_space (b @ unsaved_suffix)"
    by (simp add: unsaved_suffix_def is_space_def)
  moreover have "\<not> match_groups (b @ unsaved_suffix)"
    using marker_run_before_suffix [of "b @ unsaved_suffix" b] assms
    by (auto simp: proper_title_def match_groups_iff)
  ultimately show ?thesis by (simp add: proper_title_def)
qed

lemma no_marker_no_match:
  assumes "\<not> occurs_in_ci marker s"
  shows "re_match s = None"
proof -
  have occ: "occurs_in_ci p (xs @ ys)" if "occurs_in_ci p ys" for p xs ys
    using that by (induction xs) auto
  have pre: "occurs_in_ci p (m @ t)"
    if eq: "map canonicalize m = map canonicalize p" and ne: "p \<noteq> []" for p m t
  proof -
    have len: "length m = length p" using eq by (metis length_map)
    then obtain c cs where m: "m = c # cs" using ne by (cases m) auto
    have "take (length p) (m @ t) = m" using len by simp
    then show ?thesis using eq unfolding m by simp
  qed
  have run: "occurs_in_ci marker x" if "marker_run x" for x
    using that
  proof (cases rule: marker_run.cases)
    case (last_group w m t)
    then show ?thesis using occ [of marker "m @ t" w] pre [of m marker t]
      by (simp add: is_marker_def marker_def)
  next
    case (more_groups w m t)
    then show ?thesis using occ [of marker "m @ t" w] pre [of m marker t]
      by (simp add: is_marker_def marker_def)
  qed
  have "\<not> match_groups (drop j s)" for j
  proof
    assume "match_groups (drop j s)"
    then have "occurs_in_ci marker (drop j s)" using run by (simp add: match_groups_iff)
    then have "occurs_in_ci marker (take j s @ drop j s)" by (rule occ)
    then show False using assms by simp
  qed
  then show ?thesis by (simp add: re_match_None)
qed

section \<open>What the presentation routines leave alone\<close>

lemma refresh_label_frame [simp]:
  "windows (snd (refresh_label m n)) = windows m"
  "tabs (snd (refresh_label m n)) = tabs m"
  "windows_by_hash (snd (refresh_label m n)) = windows_by_hash m"
  "info_log (snd (refresh_label m n)) = info_log m"
  by (auto simp: refresh_label_def split: option.splits prod.splits)

lemma refresh_icon_frame [simp]:
  "windows (snd (refresh_icon m r)) = windows m"
  "tabs (snd (refresh_icon m r)) = tabs m"
  "windows_by_hash (snd (refresh_icon m r)) = windows_by_hash m"
  "info_log (snd (refresh_icon m r)) = info_log m"
  by (auto simp: refresh_icon_def Let_def split: option.splits prod.splits)

lemma put_val_window:
  "ty v = IT_WIN \<Longrightarrow> windows m (node_id v) \<noteq> None \<Longrightarrow>
   put_val m v = m\<lparr>windows := (windows m)(node_id v \<mapsto> v)\<rparr>"
  by (auto simp: put_val_def)

lemma put_val_tab:
  "ty v = IT_TAB \<Longrightarrow> tabs m (node_id v) \<noteq> None \<Longrightarrow>
   put_val m v = m\<lparr>tabs := (tabs m)(node_id v \<mapsto> v)\<rparr>"
  by (auto simp: put_val_def)

section \<open>Resolving references, and the example state\<close>

lemma vn_by_vorny_Some:
  "vn_by_vorny m r t = (Some v, n) \<Longrightarrow> n \<noteq> [] \<and> r \<noteq> Falsy \<and> r \<noteq> NodeId []"
  by (cases r) (auto simp: VN_NONE_def split: if_splits)

lemma ex_with_window:
  "ty v = IT_WIN \<Longrightarrow> node_id v = ''w1'' \<Longrightarrow>
   ex_with v = ex_model\<lparr>windows := (windows ex_model)(''w1'' \<mapsto> v)\<rparr>"
  by (simp add: ex_with_def put_val_def ex_model_def)

lemma ex_with_tab:
  "ty v = IT_TAB \<Longrightarrow> node_id v = ''t1'' \<Longrightarrow>
   ex_with v = ex_model\<lparr>tabs := (tabs ex_model)(''t1'' \<mapsto> v)\<rparr>"
  by (simp add: ex_with_def put_val_def ex_model_def)

lemma ex_vals [simp]:
  "ty (ex_win n) = IT_WIN" "node_id (ex_win n) = n"
  "ty (ex_tab n u) = IT_TAB" "node_id (ex_tab n u) = n"
  "ty ex_open_win = IT_WIN" "node_id ex_open_win = ''w1''"
  "ty ex_open_tab = IT_TAB" "node_id ex_open_tab = ''t1''"
  by (simp_all add: ex_win_def ex_tab_def ex_open_win_def ex_open_tab_def tab_after_open_def)

section \<open>What the operations on the tree and on a record leave alone\<close>

lemma place_simps [simp]:
  "place (x\<lparr>label := l\<rparr>) = place x"
  "place (x\<lparr>icon := i\<rparr>) = place x"
  "place (x\<lparr>multitype := ts\<rparr>) = place x"
  "place (x\<lparr>opened := b\<rparr>) = place x"
  by (simp_all add: place_def)

lemma tree_ops_place [simp]:
  "map_option place (add_multitype t n tag k) = map_option place (t k)"
  "map_option place (del_multitype t n tag k) = map_option place (t k)"
  "map_option place (open_node t n k) = map_option place (t k)"
  "map_option place (set_icon t n ic k) = map_option place (t k)"
  "map_option place (snd (rename_node t n l) k) = map_option place (t k)"
  by (auto simp: add_multitype_def del_multitype_def open_node_def set_icon_def rename_node_def
        split: option.splits)

lemma refresh_place [simp]:
  "map_option place (treeobj (snd (refresh_label m n)) k) = map_option place (treeobj m k)"
  "map_option place (treeobj (snd (refresh_icon m r)) k) = map_option place (treeobj m k)"
  by (auto simp: refresh_label_def refresh_icon_def Let_def case_prod_beta split: option.splits)

lemma place_None: "map_option place a = map_option place b \<Longrightarrow> (a = None) = (b = None)"
  by (cases a; cases b) auto

lemma tree_ops_None [simp]:
  "(add_multitype t n tag k = None) = (t k = None)"
  "(del_multitype t n tag k = None) = (t k = None)"
  "(open_node t n k = None) = (t k = None)"
  "(set_icon t n ic k = None) = (t k = None)"
  "(snd (rename_node t n l) k = None) = (t k = None)"
  by (rule place_None, simp)+

lemma refresh_None [simp]:
  "(treeobj (snd (refresh_label m n)) k = None) = (treeobj m k = None)"
  "(treeobj (snd (refresh_icon m r)) k = None) = (treeobj m k = None)"
  by (rule place_None, simp)+

lemma put_val_frame [simp]:
  "treeobj (put_val m v) = treeobj m"
  "info_log (put_val m v) = info_log m"
  "windows_by_hash (put_val m v) = windows_by_hash m"
  by (auto simp: put_val_def split: item_type.splits)

section \<open>The hash index and \<open>updateOrderedURLHash\<close>\<close>

lemma change_key_hash_eq:
  assumes "windows m n = Some v" "ty v = IT_WIN" "node_id v = n"
  shows "change_key_ordered_url_hash m v new =
         m\<lparr>windows_by_hash :=
             (let idx1 = (case ordered_url_hash v of
                            None \<Rightarrow> windows_by_hash m
                          | Some h \<Rightarrow> (windows_by_hash m)(h := None))
              in case new of None \<Rightarrow> idx1 | Some h \<Rightarrow> idx1(h \<mapsto> n)),
           windows := (windows m)(n \<mapsto> v\<lparr>ordered_url_hash := new\<rparr>)\<rparr>"
  using assms by (auto simp: change_key_ordered_url_hash_def put_val_def Let_def)

lemma store_ok_window:
  "store_ok m \<Longrightarrow> windows m n = Some v \<Longrightarrow> ty v = IT_WIN \<and> node_id v = n"
  by (simp add: store_ok_def)

lemma store_ok_owner:
  "store_ok m \<Longrightarrow> windows m n = Some v \<Longrightarrow> ordered_url_hash v = Some h \<Longrightarrow>
   windows_by_hash m h = Some n"
  unfolding store_ok_def by blast

lemma store_ok_index:
  "store_ok m \<Longrightarrow> windows_by_hash m h = Some n \<Longrightarrow>
   \<exists>v. windows m n = Some v \<and> ordered_url_hash v = Some h"
  unfolding store_ok_def by blast

lemma store_ok_unique:
  "store_ok m \<Longrightarrow> hash_of m a = Some g \<Longrightarrow> hash_of m b = Some g \<Longrightarrow> a = b"
  by (auto simp: hash_of_def split: option.splits) (metis store_ok_owner option.inject)

lemma store_ok_holds:
  assumes "store_ok m" "windows m n = Some v"
  shows "(ordered_url_hash v = Some h) = (windows_by_hash m h = Some n)"
  using store_ok_owner [OF assms] store_ok_index [OF assms(1), of h n] assms(2) by auto

lemma change_key_index:
  assumes "store_ok m" "windows m n = Some v"
  shows "windows_by_hash (change_key_ordered_url_hash m v new) h =
         (if new = Some h then Some n
          else if windows_by_hash m h = Some n then None else windows_by_hash m h)"
proof -
  note w = store_ok_window [OF assms]
  note hd = store_ok_holds [OF assms]
  show ?thesis
  proof (cases "ordered_url_hash v")
    case None
    then have "windows_by_hash m h \<noteq> Some n" using hd [of h] by simp
    then show ?thesis using None w
      by (cases new) (simp_all add: change_key_ordered_url_hash_def Let_def)
  next
    case (Some h0)
    then have "(windows_by_hash m h = Some n) = (h = h0)" using hd [of h] by auto
    then show ?thesis using Some w
      by (cases new) (auto simp: change_key_ordered_url_hash_def Let_def)
  qed
qed

lemma change_key_windows:
  assumes "store_ok m" "windows m n = Some v"
  shows "windows (change_key_ordered_url_hash m v new) =
         (windows m)(n \<mapsto> v\<lparr>ordered_url_hash := new\<rparr>)"
  using store_ok_window [OF assms] assms(2)
  by (auto simp: change_key_ordered_url_hash_def Let_def put_val_def)

lemma change_key_tabs:
  "ty v = IT_WIN \<Longrightarrow> tabs (change_key_ordered_url_hash m v new) = tabs m"
  by (auto simp: change_key_ordered_url_hash_def Let_def put_val_def)

lemma change_key_frame [simp]:
  "treeobj (change_key_ordered_url_hash m v new) = treeobj m"
  "info_log (change_key_ordered_url_hash m v new) = info_log m"
  by (auto simp: change_key_ordered_url_hash_def Let_def put_val_def split: item_type.splits)

lemma change_key_ok:
  assumes ok: "store_ok m" and w: "windows m n = Some v"
    and new: "\<And>h. new = Some h \<Longrightarrow> windows_by_hash m h = None"
  shows "store_ok (change_key_ordered_url_hash m v new)"
proof -
  let ?m = "change_key_ordered_url_hash m v new"
  note wv = store_ok_window [OF ok w]
  note W = change_key_windows [OF ok w, of new]
  note I = change_key_index [OF ok w, of new]
  have 1: "ty u = IT_WIN \<and> node_id u = k" if "windows ?m k = Some u" for k u
    using that wv store_ok_window [OF ok, of k u] unfolding W by (auto split: if_splits)
  have 2: "ty u = IT_TAB \<and> node_id u = k" if "tabs ?m k = Some u" for k u
    using that ok wv by (simp add: store_ok_def change_key_tabs)
  have 3: "windows_by_hash ?m h = Some k"
    if "windows ?m k = Some u" "ordered_url_hash u = Some h" for k u h
  proof (cases "k = n")
    case True
    then show ?thesis using that unfolding W I by auto
  next
    case False
    then have "windows m k = Some u" using that(1) unfolding W by simp
    then have "windows_by_hash m h = Some k" using store_ok_owner [OF ok] that(2) by blast
    then show ?thesis using False new [of h] unfolding I by auto
  qed
  have 4: "\<exists>u. windows ?m k = Some u \<and> ordered_url_hash u = Some h"
    if "windows_by_hash ?m h = Some k" for h k
  proof (cases "new = Some h")
    case True
    then show ?thesis using that unfolding W I by auto
  next
    case False
    then have "windows_by_hash m h = Some k" "k \<noteq> n"
      using that unfolding I by (auto split: if_splits)
    then show ?thesis using store_ok_index [OF ok, of h k] unfolding W by auto
  qed
  show ?thesis unfolding store_ok_def using 1 2 3 4 by blast
qed

lemma change_key_hash_of:
  assumes "store_ok m" "windows m n = Some v"
  shows "hash_of (change_key_ordered_url_hash m v new) k = (if k = n then new else hash_of m k)"
  unfolding hash_of_def change_key_windows [OF assms] by simp

lemma child_urls_loop_tabs:
  "tabs m' = tabs m \<Longrightarrow> child_urls_loop m' cs acc = child_urls_loop m cs acc"
  by (induction cs arbitrary: acc)
    (auto simp: tabs_by_node_id_raw_url_def split: option.splits)

lemma window_ref_frame:
  assumes "window_ref m r n v nd" "windows m' n = windows m n" "tabs m' = tabs m"
    "treeobj m' = treeobj m"
  shows "window_ref m' r n v nd"
  using assms
  by (cases r) (auto simp: window_ref_def VN_NONE_def val_by_node_id_def split: if_splits)

lemma update_unfold:
  assumes "window_ref m r n v nd"
  shows "updateOrderedURLHash m r =
     (case child_urls_loop m (children nd) [] of
        None \<Rightarrow> (False, change_key_ordered_url_hash m v None)
      | Some child_urls \<Rightarrow>
          (case by_ordered_url_hash m (orderedHashOfStrings (Array child_urls)) of
             Some other_win_val \<Rightarrow>
               if same_object v other_win_val then (True, m)
               else (False, change_key_ordered_url_hash m v None)
           | None \<Rightarrow>
               (True, change_key_ordered_url_hash m v
                        (Some (orderedHashOfStrings (Array child_urls))))))"
  using assms vn_by_vorny_Some [of m r "Some IT_WIN" v n]
  by (simp add: updateOrderedURLHash_def window_ref_def Let_def split: option.splits)

lemma update_no_url:
  assumes "window_ref m r n v nd" "child_urls_loop m (children nd) [] = None"
  shows "updateOrderedURLHash m r = (False, change_key_ordered_url_hash m v None)"
  by (simp add: update_unfold [OF assms(1)] assms(2))

lemma update_same:
  assumes "store_ok m" "window_ref m r n v nd" "child_urls_loop m (children nd) [] = Some us"
    "windows_by_hash m (orderedHashOfStrings (Array us)) = Some n"
  shows "updateOrderedURLHash m r = (True, m)"
  using assms(2-)
  by (simp add: update_unfold [OF assms(2)] by_ordered_url_hash_def window_ref_def
        same_object_def)

lemma update_other:
  assumes "store_ok m" "window_ref m r n v nd" "child_urls_loop m (children nd) [] = Some us"
    "windows_by_hash m (orderedHashOfStrings (Array us)) = Some k" "k \<noteq> n"
  shows "updateOrderedURLHash m r = (False, change_key_ordered_url_hash m v None)"
proof -
  obtain u where u: "windows m k = Some u"
    using store_ok_index [OF assms(1,4)] by blast
  have "node_id u = k" "node_id v = n"
    using store_ok_window [OF assms(1) u] store_ok_window [OF assms(1), of n v] assms(2)
    by (simp_all add: window_ref_def)
  then show ?thesis using assms(3-) u
    by (simp add: update_unfold [OF assms(2)] by_ordered_url_hash_def same_object_def)
qed

lemma update_free:
  assumes "window_ref m r n v nd" "child_urls_loop m (children nd) [] = Some us"
    "windows_by_hash m (orderedHashOfStrings (Array us)) = None"
  shows "updateOrderedURLHash m r =
         (True, change_key_ordered_url_hash m v (Some (orderedHashOfStrings (Array us))))"
  using assms(2-)
  by (simp add: update_unfold [OF assms(1)] by_ordered_url_hash_def)

lemma update_summary:
  assumes ok: "store_ok m" and ref: "window_ref m r n v nd"
    and us: "child_urls_loop m (children nd) [] = Some us"
    and h: "h = orderedHashOfStrings (Array us)"
  shows "store_ok (snd (updateOrderedURLHash m r))"
    and "tabs (snd (updateOrderedURLHash m r)) = tabs m"
    and "treeobj (snd (updateOrderedURLHash m r)) = treeobj m"
    and "k \<noteq> n \<Longrightarrow> windows (snd (updateOrderedURLHash m r)) k = windows m k"
    and "windows_by_hash (snd (updateOrderedURLHash m r)) h =
           (case windows_by_hash m h of None \<Rightarrow> Some n | Some j \<Rightarrow> Some j)"
    and "hash_of (snd (updateOrderedURLHash m r)) n =
           (if windows_by_hash m h = None \<or> windows_by_hash m h = Some n then Some h else None)"
    and "fst (updateOrderedURLHash m r) =
           (windows_by_hash m h = None \<or> windows_by_hash m h = Some n)"
proof -
  have w: "windows m n = Some v" using ref by (simp add: window_ref_def)
  note wv = store_ok_window [OF ok w]
  consider (free) "windows_by_hash m h = None" | (same) "windows_by_hash m h = Some n"
    | (other) j where "windows_by_hash m h = Some j" "j \<noteq> n"
    by (cases "windows_by_hash m h") auto
  then have "store_ok (snd (updateOrderedURLHash m r)) \<and>
     tabs (snd (updateOrderedURLHash m r)) = tabs m \<and>
     treeobj (snd (updateOrderedURLHash m r)) = treeobj m \<and>
     (k \<noteq> n \<longrightarrow> windows (snd (updateOrderedURLHash m r)) k = windows m k) \<and>
     windows_by_hash (snd (updateOrderedURLHash m r)) h =
           (case windows_by_hash m h of None \<Rightarrow> Some n | Some j \<Rightarrow> Some j) \<and>
     hash_of (snd (updateOrderedURLHash m r)) n =
           (if windows_by_hash m h = None \<or> windows_by_hash m h = Some n then Some h else None) \<and>
     fst (updateOrderedURLHash m r) =
           (windows_by_hash m h = None \<or> windows_by_hash m h = Some n)"
  proof cases
    case free
    have e: "updateOrderedURLHash m r = (True, change_key_ordered_url_hash m v (Some h))"
      using update_free [OF ref us] free h by simp
    have "store_ok (change_key_ordered_url_hash m v (Some h))"
      using change_key_ok [OF ok w, of "Some h"] free by simp
    then show ?thesis using free wv
      by (simp add: e change_key_tabs change_key_windows [OF ok w] change_key_index [OF ok w]
            change_key_hash_of [OF ok w])
  next
    case same
    have e: "updateOrderedURLHash m r = (True, m)"
      using update_same [OF ok ref us] same h by simp
    have "ordered_url_hash v = Some h" using store_ok_holds [OF ok w, of h] same by simp
    then show ?thesis using same ok w by (simp add: e hash_of_def)
  next
    case other
    have e: "updateOrderedURLHash m r = (False, change_key_ordered_url_hash m v None)"
      using update_other [OF ok ref us] other h by simp
    have "store_ok (change_key_ordered_url_hash m v None)"
      using change_key_ok [OF ok w, of None] by simp
    then show ?thesis using other wv
      by (simp add: e change_key_tabs change_key_windows [OF ok w] change_key_index [OF ok w]
            change_key_hash_of [OF ok w])
  qed
  then show "store_ok (snd (updateOrderedURLHash m r))"
    and "tabs (snd (updateOrderedURLHash m r)) = tabs m"
    and "treeobj (snd (updateOrderedURLHash m r)) = treeobj m"
    and "k \<noteq> n \<Longrightarrow> windows (snd (updateOrderedURLHash m r)) k = windows m k"
    and "windows_by_hash (snd (updateOrderedURLHash m r)) h =
           (case windows_by_hash m h of None \<Rightarrow> Some n | Some j \<Rightarrow> Some j)"
    and "hash_of (snd (updateOrderedURLHash m r)) n =
           (if windows_by_hash m h = None \<or> windows_by_hash m h = Some n then Some h else None)"
    and "fst (updateOrderedURLHash m r) =
           (windows_by_hash m h = None \<or> windows_by_hash m h = Some n)"
    by simp_all
qed

lemma update_no_url_summary:
  assumes ok: "store_ok m" and ref: "window_ref m r n v nd"
    and us: "child_urls_loop m (children nd) [] = None"
  shows "store_ok (snd (updateOrderedURLHash m r))"
    and "hash_of (snd (updateOrderedURLHash m r)) n = None"
    and "\<not> fst (updateOrderedURLHash m r)"
proof -
  have w: "windows m n = Some v" using ref by (simp add: window_ref_def)
  show "store_ok (snd (updateOrderedURLHash m r))"
    using change_key_ok [OF ok w, of None] by (simp add: update_no_url [OF ref us])
  show "hash_of (snd (updateOrderedURLHash m r)) n = None"
    by (simp add: update_no_url [OF ref us] change_key_hash_of [OF ok w])
  show "\<not> fst (updateOrderedURLHash m r)"
    by (simp add: update_no_url [OF ref us])
qed

lemma two_windows:
  assumes ok: "store_ok m" and r1: "window_ref m r1 n1 v1 nd1" and r2: "window_ref m r2 n2 v2 nd2"
    and ne: "n1 \<noteq> n2"
    and us1: "child_urls_loop m (children nd1) [] = Some us"
    and us2: "child_urls_loop m (children nd2) [] = Some us"
    and h: "h = orderedHashOfStrings (Array us)"
    and third: "windows_by_hash m h = None \<or> windows_by_hash m h = Some n1 \<or>
                windows_by_hash m h = Some n2"
    and m1: "m1 = snd (updateOrderedURLHash m r1)"
    and m2: "m2 = snd (updateOrderedURLHash m1 r2)"
  shows "(hash_of m2 n1 = Some h \<and> hash_of m2 n2 = None) \<or>
         (hash_of m2 n1 = None \<and> hash_of m2 n2 = Some h)"
proof -
  note s1 = update_summary [OF ok r1 us1 h, folded m1]
  have ref2: "window_ref m1 r2 n2 v2 nd2"
    using window_ref_frame [OF r2, of m1] s1(2,3) s1(4) [of n2] ne by simp
  have us2': "child_urls_loop m1 (children nd2) [] = Some us"
    using child_urls_loop_tabs [OF s1(2)] us2 by simp
  note s2 = update_summary [OF s1(1) ref2 us2' h, folded m2]
  have "hash_of m2 n1 = hash_of m1 n1"
    using s2(4) [of n1] ne by (simp add: hash_of_def)
  then show ?thesis
    using third ne unfolding s2(6) s1(5) s1(6) by auto
qed

lemma by_hash_index:
  assumes "store_ok m"
  shows "(by_ordered_url_hash m h = None) = (windows_by_hash m h = None)"
    and "by_ordered_url_hash m h = Some u \<Longrightarrow> windows_by_hash m h = Some (node_id u)"
  using store_ok_index [OF assms, of h] store_ok_window [OF assms]
  by (auto simp: by_ordered_url_hash_def split: option.splits)

lemma child_urls_loop_None:
  "(child_urls_loop m cs acc = None) =
   (\<exists>c \<in> set cs. tabs_by_node_id_raw_url m c = None \<or> tabs_by_node_id_raw_url m c = Some [])"
  by (induction cs arbitrary: acc) (auto split: option.splits)

lemma store_ok_ex: "store_ok ex_model"
  by (simp add: store_ok_def ex_model_def ex_win_def ex_tab_def blank_def split: if_splits)

lemma ex_window_ref:
  "window_ref ex_model (NodeId ''w1'') ''w1'' (ex_win ''w1'')
     (ex_node (Some ''#'') [''#''] [''t1'', ''t2''] ''win'')"
  "window_ref ex_model (NodeId ''w2'') ''w2'' (ex_win ''w2'')
     (ex_node (Some ''#'') [''#''] [''t3'', ''t4''] ''win'')"
  by (simp_all add: window_ref_def ex_model_def get_node_def ex_tree_def)

lemma ex_child_urls:
  "child_urls_loop ex_model [''t1'', ''t2''] [] = Some [''http://x'', ''http://y'']"
  "child_urls_loop ex_model [''t3'', ''t4''] [] = Some [''http://x'', ''http://y'']"
  by (simp_all add: tabs_by_node_id_raw_url_def ex_model_def ex_tab_def)

lemma change_key_self:
  assumes "windows m n = Some v" "ty v = IT_WIN" "node_id v = n"
  shows "windows (change_key_ordered_url_hash m v new) n = Some (v\<lparr>ordered_url_hash := new\<rparr>)"
  by (simp add: change_key_hash_eq [OF assms])

section \<open>Adding items: \<open>vnRezWin\<close> and \<open>vnRezTab\<close>\<close>

lemma create_node_None:
  "fst (create_node t par lbl pos pick) = None \<Longrightarrow> create_node t par lbl pos pick = (None, t)"
  by (auto simp: create_node_def Let_def split: option.splits if_splits)

lemma create_node_Some:
  assumes "fst (create_node t par lbl pos pick) = Some n"
  shows "n \<noteq> []" and "t n = None" and "t par \<noteq> None" and "n \<noteq> par"
    and "(snd (create_node t par lbl pos pick) k = None) = (k \<noteq> n \<and> t k = None)"
    and "map_option parent (snd (create_node t par lbl pos pick) n) = Some (Some par)"
  using assms
  by (auto simp: create_node_def Let_def split: option.splits if_splits)

lemma remove1_inserted:
  "n \<notin> set cs \<Longrightarrow> remove1 n (take i cs @ n # drop i cs) = cs"
proof -
  assume a: "n \<notin> set cs"
  then have "n \<notin> set (take i cs)" by (meson in_set_takeD)
  then have "remove1 n (take i cs @ n # drop i cs) = take i cs @ drop i cs"
    by (simp add: remove1_append)
  then show ?thesis by simp
qed

lemma create_delete:
  assumes "fst (create_node t par lbl pos pick) = Some n" "tree_ok t"
  shows "delete_node (add_multitype (snd (create_node t par lbl pos pick)) n tag) n = t"
proof -
  obtain p where p: "t par = Some p" using create_node_Some(3) [OF assms(1)] by blast
  have n: "t n = None" "n \<noteq> par" using create_node_Some [OF assms(1)] by auto
  have pick: "pick = Some n" "n \<noteq> []"
    using assms(1) p by (auto simp: create_node_def Let_def split: option.splits if_splits)
  have fresh: "n \<notin> set (children x)" "n \<notin> set (parents x)" if "t k = Some x" for k x
    using assms(2) that n(1) unfolding tree_ok_def by (metis domIff subsetD)+
  have np: "n \<notin> set (children p)" "n \<notin> set (parents p)" using fresh [OF p] by auto
  show ?thesis
  proof
    fix k
    show "delete_node (add_multitype (snd (create_node t par lbl pos pick)) n tag) n k = t k"
      using p n pick np fresh [of k]
      by (cases "t k")
        (auto simp: create_node_def Let_def add_multitype_def delete_node_def remove1_inserted)
  qed
qed

lemma create_delete_gone:
  assumes "fst (create_node t par lbl pos pick) = Some n"
  shows "delete_node (add_multitype (snd (create_node t par lbl pos pick)) n tag) n n = None"
proof -
  obtain p where p: "t par = Some p" using create_node_Some(3) [OF assms(1)] by blast
  have n: "t n = None" "n \<noteq> par" using create_node_Some [OF assms(1)] by auto
  have pick: "pick = Some n" "n \<noteq> []"
    using assms(1) p by (auto simp: create_node_def Let_def split: option.splits if_splits)
  show ?thesis using p n pick
    by (simp add: create_node_def Let_def add_multitype_def delete_node_def)
qed

lemma vnRezWin_refused:
  assumes "fst (create_node (treeobj m) jstree_root [Raw ''Window'']
                  (if f then At 1 else Last) pick) = None"
  shows "vnRezWin m f pick = (VN_NONE, m)"
  using create_node_None [OF assms] by (simp add: vnRezWin_def)

lemma vnRezWin_add_fails:
  assumes "fst (create_node (treeobj m) jstree_root [Raw ''Window'']
                  (if f then At 1 else Last) pick) = Some n"
    and "windows m n \<noteq> None"
  shows "vnRezWin m f pick =
         (VN_NONE,
          m\<lparr>treeobj := delete_node (add_multitype
                (snd (create_node (treeobj m) jstree_root [Raw ''Window'']
                        (if f then At 1 else Last) pick)) n (type_tag IT_WIN)) n\<rparr>)"
  using assms
  by (cases "create_node (treeobj m) jstree_root [Raw ''Window''] (if f then At 1 else Last) pick")
    (auto simp: vnRezWin_def Let_def windows_add_def)

lemma vnRezWin_ok:
  assumes "fst (create_node (treeobj m) jstree_root [Raw ''Window'']
                  (if f then At 1 else Last) pick) = Some n"
    and "windows m n = None"
  shows "fst (vnRezWin m f pick) = (Some (fresh_win n), n)"
    and "windows (snd (vnRezWin m f pick)) = (windows m)(n \<mapsto> fresh_win n)"
    and "tabs (snd (vnRezWin m f pick)) = tabs m"
    and "(treeobj (snd (vnRezWin m f pick)) k = None) = (k \<noteq> n \<and> treeobj m k = None)"
  using assms create_node_Some(5) [OF assms(1), of k]
  by (cases "create_node (treeobj m) jstree_root [Raw ''Window''] (if f then At 1 else Last) pick";
      simp add: vnRezWin_def Let_def windows_add_def fresh_win_def blank_def)+

lemma vnRezTab_unfold:
  assumes "vn_by_vorny m r None = (Some pv, p)" "get_node (treeobj m) p \<noteq> None"
  shows "vnRezTab m r pick =
     (case create_node (treeobj m) p [Raw ''Tab''] Last pick of
        (None, t) \<Rightarrow> (VN_NONE, m)
      | (Some n, t) \<Rightarrow>
          let m1 = m\<lparr>treeobj := add_multitype t n (type_tag IT_TAB)\<rparr> in
          (case tabs_add m1
                  (blank\<lparr>tab_id := NONE, node_id := n, win_id := NONE,
                         index := NONE, tab := None, isOpen := False,
                         isPinned := False\<rparr>) of
             (None, m2) \<Rightarrow> (VN_NONE, m2\<lparr>treeobj := delete_node (treeobj m2) n\<rparr>)
           | (Some v, m2) \<Rightarrow>
               let m3 = snd (refresh_label m2 n);
                   m4 = snd (refresh_icon m3 (Val v))
               in ((Some v, n), m4)))"
  using assms vn_by_vorny_Some [OF assms(1)]
  by (auto simp: vnRezTab_def split: option.splits)

lemma vnRezTab_refused:
  assumes "vn_by_vorny m r None = (Some pv, p)" "get_node (treeobj m) p \<noteq> None"
    and "fst (create_node (treeobj m) p [Raw ''Tab''] Last pick) = None"
  shows "vnRezTab m r pick = (VN_NONE, m)"
  using create_node_None [OF assms(3)] by (simp add: vnRezTab_unfold [OF assms(1,2)])

lemma vnRezTab_add_fails:
  assumes "vn_by_vorny m r None = (Some pv, p)" "get_node (treeobj m) p \<noteq> None"
    and "fst (create_node (treeobj m) p [Raw ''Tab''] Last pick) = Some n"
    and "tabs m n \<noteq> None"
  shows "vnRezTab m r pick =
         (VN_NONE,
          m\<lparr>treeobj := delete_node (add_multitype
                (snd (create_node (treeobj m) p [Raw ''Tab''] Last pick)) n
                (type_tag IT_TAB)) n\<rparr>)"
  using assms(3,4)
  by (cases "create_node (treeobj m) p [Raw ''Tab''] Last pick")
    (auto simp: vnRezTab_unfold [OF assms(1,2)] Let_def tabs_add_def)

lemma vnRezTab_ok:
  assumes "vn_by_vorny m r None = (Some pv, p)" "get_node (treeobj m) p \<noteq> None"
    and "fst (create_node (treeobj m) p [Raw ''Tab''] Last pick) = Some n"
    and "tabs m n = None"
  shows "fst (vnRezTab m r pick) = (Some (fresh_tab n), n)"
    and "tabs (snd (vnRezTab m r pick)) = (tabs m)(n \<mapsto> fresh_tab n)"
    and "windows (snd (vnRezTab m r pick)) = windows m"
    and "(treeobj (snd (vnRezTab m r pick)) k = None) = (k \<noteq> n \<and> treeobj m k = None)"
  using assms(3,4) create_node_Some(5) [OF assms(3), of k]
  by (cases "create_node (treeobj m) p [Raw ''Tab''] Last pick";
      simp add: vnRezTab_unfold [OF assms(1,2)] Let_def tabs_add_def fresh_tab_def blank_def)+

lemma vnRezTab_no_parent:
  assumes "fst (vn_by_vorny m r None) = None \<or> get_node (treeobj m) (snd (vn_by_vorny m r None)) = None"
  shows "vnRezTab m r pick = (VN_NONE, m)"
  using assms by (auto simp: vnRezTab_def split: option.splits prod.splits)

lemma paired_add:
  assumes "paired m" "\<And>k. (treeobj m' k = None) = (k \<noteq> n \<and> treeobj m k = None)"
    "\<And>k. (val_by_node_id m' k = None) = (k \<noteq> n \<and> val_by_node_id m k = None)"
  shows "paired m'"
  using assms unfolding paired_def by simp

lemma vnRezWin_paired:
  assumes "paired m" "tree_ok (treeobj m)"
  shows "paired (snd (vnRezWin m f pick))"
proof (cases "fst (win_node m f pick)")
  case None
  then show ?thesis using assms(1) vnRezWin_refused [of m f pick] by (simp add: win_node_def)
next
  case (Some n)
  then have c: "fst (create_node (treeobj m) jstree_root [Raw ''Window'']
                  (if f then At 1 else Last) pick) = Some n"
    by (simp add: win_node_def)
  show ?thesis
  proof (cases "windows m n")
    case None
    note ok = vnRezWin_ok [OF c None]
    show ?thesis
      by (rule paired_add [OF assms(1), of _ n])
        (simp_all add: ok val_by_node_id_def split: option.splits)
  next
    case (Some u)
    then show ?thesis
      using vnRezWin_add_fails [OF c, of ] create_delete [OF c assms(2)] assms(1) by simp
  qed
qed

lemma vnRezTab_paired:
  assumes "paired m" "tree_ok (treeobj m)"
  shows "paired (snd (vnRezTab m r pick))"
proof (cases "fst (vn_by_vorny m r None) = None \<or>
              get_node (treeobj m) (snd (vn_by_vorny m r None)) = None")
  case True
  then show ?thesis using vnRezTab_no_parent [OF True] assms(1) by simp
next
  case False
  then obtain pv p where r: "vn_by_vorny m r None = (Some pv, p)"
      "get_node (treeobj m) p \<noteq> None"
    by (cases "vn_by_vorny m r None") auto
  show ?thesis
  proof (cases "fst (create_node (treeobj m) p [Raw ''Tab''] Last pick)")
    case None
    then show ?thesis using assms(1) vnRezTab_refused [OF r] by simp
  next
    case (Some n)
    show ?thesis
    proof (cases "tabs m n")
      case None
      note ok = vnRezTab_ok [OF r Some None]
      show ?thesis
        by (rule paired_add [OF assms(1), of _ n])
          (auto simp: ok val_by_node_id_def split: option.splits)
    next
      case (Some u)
      then show ?thesis
        using vnRezTab_add_fails [OF r \<open>fst (create_node (treeobj m) p [Raw ''Tab''] Last pick) = Some n\<close>]
          create_delete [OF \<open>fst (create_node (treeobj m) p [Raw ''Tab''] Last pick) = Some n\<close> assms(2)]
          assms(1) by simp
    qed
  qed
qed

lemma tree_ok_ex: "tree_ok ex_tree"
  by (simp add: tree_ok_def ex_tree_def ex_node_def split: if_splits)

lemma paired_ex: "paired ex_model"
  by (simp add: paired_def ex_model_def ex_tree_def val_by_node_id_def jstree_root_def)

section \<open>Removing items: \<open>eraseTab\<close> and \<open>eraseWin\<close>\<close>

lemma delete_node_None: "t k = None \<Longrightarrow> delete_node t c k = None"
  by (auto simp: delete_node_def Let_def split: option.splits)

lemma delete_node_self: "t c = Some y \<Longrightarrow> parent y \<noteq> None \<Longrightarrow> delete_node t c c = None"
  by (auto simp: delete_node_def Let_def split: option.splits)

lemma delete_node_other:
  assumes "t c = Some y" "parent y = Some n" "k \<noteq> c" "k \<noteq> n"
    "\<And>z. t k = Some z \<Longrightarrow> c \<notin> set (parents z)"
  shows "delete_node t c k = t k"
  using assms by (auto simp: delete_node_def Let_def split: option.splits)

lemma delete_node_parent:
  assumes "t c = Some y" "parent y = Some n" "n \<noteq> c" "t n = Some x" "c \<notin> set (parents x)"
  shows "delete_node t c n = Some (x\<lparr>children := remove1 c (children x)\<rparr>)"
  using assms by (auto simp: delete_node_def Let_def split: option.splits)

lemma delete_node_Some:
  assumes "delete_node t c k = Some z"
  shows "\<exists>z0. t k = Some z0 \<and> parent z = parent z0 \<and> parents z = parents z0"
  using assms by (auto simp: delete_node_def Let_def split: option.splits if_splits)

lemma eraseTab_NodeId:
  assumes "\<And>k u. tabs m k = Some u \<Longrightarrow> ty u = IT_TAB \<and> node_id u = k"
  shows "eraseTab m (NodeId c) =
     (if c = [] \<or> tabs m c = None \<or> treeobj m c = None then (False, m)
      else (True, m\<lparr>tabs := (tabs m)(c := None), treeobj := delete_node (treeobj m) c\<rparr>))"
  using assms
  by (auto simp: eraseTab_def VN_NONE_def get_node_def tabs_remove_value_def Let_def
        split: option.splits)

lemma erase_children_append:
  "erase_children m (a @ b) =
     (case erase_children m a of
        (False, m1) \<Rightarrow> (False, m1)
      | (True, m1) \<Rightarrow> erase_children m1 b)"
  by (induction a arbitrary: m) (auto split: prod.splits bool.splits)

lemma erase_children_frame:
  "windows (snd (erase_children m cs)) = windows m"
  "windows_by_hash (snd (erase_children m cs)) = windows_by_hash m"
  "info_log (snd (erase_children m cs)) = info_log m"
  by (induction cs arbitrary: m;
      auto simp: eraseTab_def tabs_remove_value_def Let_def
        split: prod.splits bool.splits option.splits)+

lemma eraseTab_mono:
  "tabs m k = None \<Longrightarrow> tabs (snd (eraseTab m r)) k = None"
  "treeobj m k = None \<Longrightarrow> treeobj (snd (eraseTab m r)) k = None"
  by (auto simp: eraseTab_def tabs_remove_value_def Let_def delete_node_None
        split: prod.splits option.splits)

lemma erase_children_mono:
  "tabs m k = None \<Longrightarrow> tabs (snd (erase_children m cs)) k = None"
  "treeobj m k = None \<Longrightarrow> treeobj (snd (erase_children m cs)) k = None"
proof (induction cs arbitrary: m)
  case Nil
  { case 1 then show ?case by simp }
  { case 2 then show ?case by simp }
next
  case (Cons c cs)
  { case 1
    then show ?case
      using Cons.IH(1) [of "snd (eraseTab m (NodeId c))"] eraseTab_mono(1) [of m k "NodeId c"]
      by (auto split: prod.splits bool.splits) }
  { case 2
    then show ?case
      using Cons.IH(2) [of "snd (eraseTab m (NodeId c))"] eraseTab_mono(2) [of m k "NodeId c"]
      by (auto split: prod.splits bool.splits) }
qed

lemma eraseTab_False: "eraseTab m r = (False, m1) \<Longrightarrow> m1 = m"
  by (auto simp: eraseTab_def Let_def split: option.splits prod.splits if_splits)

lemma eraseTab_True_tree:
  "eraseTab m (NodeId c) = (True, m1) \<Longrightarrow> treeobj m1 = delete_node (treeobj m) c"
  by (auto simp: eraseTab_def Let_def VN_NONE_def tabs_remove_value_def
        split: option.splits prod.splits if_splits)

lemma erase_children_Some:
  "treeobj (snd (erase_children m cs)) k = Some z \<Longrightarrow>
   \<exists>z0. treeobj m k = Some z0 \<and> parent z = parent z0 \<and> parents z = parents z0"
proof (induction cs arbitrary: m z)
  case Nil
  then show ?case by simp
next
  case (Cons c cs)
  show ?case
  proof (cases "eraseTab m (NodeId c)")
    case (Pair b m1)
    show ?thesis
    proof (cases b)
      case False
      then show ?thesis using Cons.prems Pair eraseTab_False [of m "NodeId c" m1]
        by simp
    next
      case True
      then have "treeobj (snd (erase_children m1 cs)) k = Some z"
        using Cons.prems Pair by simp
      from Cons.IH [OF this] obtain z1 where
        z1: "treeobj m1 k = Some z1" "parent z = parent z1" "parents z = parents z1" by blast
      have "treeobj m1 = delete_node (treeobj m) c"
        using Pair True eraseTab_True_tree [of m c m1] by simp
      then show ?thesis using delete_node_Some [of "treeobj m" c k z1] z1 by auto
    qed
  qed
qed

lemma erase_children_true:
  assumes "fst (erase_children m cs)"
    and "\<And>k u. tabs m k = Some u \<Longrightarrow> ty u = IT_TAB \<and> node_id u = k"
    and "\<And>c y. c \<in> set cs \<Longrightarrow> treeobj m c = Some y \<Longrightarrow> parent y \<noteq> None"
    and "c \<in> set cs"
  shows "tabs (snd (erase_children m cs)) c = None \<and>
         treeobj (snd (erase_children m cs)) c = None"
  using assms
proof (induction cs arbitrary: m)
  case Nil
  then show ?case by simp
next
  case (Cons a cs)
  note e = eraseTab_NodeId [of m a, OF Cons.prems(2)]
  have ok: "a \<noteq> []" "tabs m a \<noteq> None" "treeobj m a \<noteq> None"
    using Cons.prems(1) by (auto simp: e split: if_splits)
  define m1 where "m1 = m\<lparr>tabs := (tabs m)(a := None), treeobj := delete_node (treeobj m) a\<rparr>"
  have e1: "eraseTab m (NodeId a) = (True, m1)" using ok by (simp add: e m1_def)
  have r: "erase_children m (a # cs) = erase_children m1 cs" by (simp add: e1)
  have f: "fst (erase_children m1 cs)" using Cons.prems(1) r by simp
  have t1: "\<And>k u. tabs m1 k = Some u \<Longrightarrow> ty u = IT_TAB \<and> node_id u = k"
    using Cons.prems(2) by (auto simp: m1_def split: if_splits)
  have p1: "parent y \<noteq> None" if b: "b \<in> set cs" and y: "treeobj m1 b = Some y" for b y
  proof -
    obtain y0 where "treeobj m b = Some y0" "parent y = parent y0"
      using delete_node_Some [of "treeobj m" a b y] y by (auto simp: m1_def)
    then show ?thesis using Cons.prems(3) [of b y0] b by simp
  qed
  show ?case
  proof (cases "c = a")
    case True
    obtain y where y: "treeobj m a = Some y" using ok(3) by blast
    have "parent y \<noteq> None" using Cons.prems(3) [of a y] y by simp
    then have "tabs m1 a = None" "treeobj m1 a = None"
      using y by (simp_all add: m1_def delete_node_self)
    then show ?thesis unfolding r True using erase_children_mono by blast
  next
    case False
    then have c: "c \<in> set cs" using Cons.prems(4) by simp
    show ?thesis unfolding r by (rule Cons.IH [OF f]) (fact t1 p1 c)+
  qed
qed

lemma erase_children_ok:
  assumes "\<And>k u. tabs m k = Some u \<Longrightarrow> ty u = IT_TAB \<and> node_id u = k"
    and "distinct cs" and "n \<notin> set cs"
    and "treeobj m n = Some x" and "set (parents x) \<inter> set cs = {}"
    and "\<And>c. c \<in> set cs \<Longrightarrow> c \<noteq> [] \<and> tabs m c \<noteq> None \<and>
           (\<exists>y. treeobj m c = Some y \<and> parent y = Some n \<and> set (parents y) \<inter> set cs = {})"
  shows "fst (erase_children m cs) \<and>
     (\<exists>x'. treeobj (snd (erase_children m cs)) n = Some x' \<and> parent x' = parent x \<and>
           parents x' = parents x) \<and>
     (\<forall>k. k \<notin> set cs \<longrightarrow> tabs (snd (erase_children m cs)) k = tabs m k) \<and>
     (\<forall>k. k \<notin> set cs \<and> k \<noteq> n \<and>
          (\<forall>z. treeobj m k = Some z \<longrightarrow> set (parents z) \<inter> set cs = {}) \<longrightarrow>
          treeobj (snd (erase_children m cs)) k = treeobj m k)"
  using assms
proof (induction cs arbitrary: m x)
  case Nil
  then show ?case by simp
next
  case (Cons a cs)
  note e = eraseTab_NodeId [of m a, OF Cons.prems(1)]
  obtain y where a: "a \<noteq> []" "tabs m a \<noteq> None" "treeobj m a = Some y" "parent y = Some n"
      "set (parents y) \<inter> set (a # cs) = {}"
    using Cons.prems(6) [of a] by auto
  define m1 where "m1 = m\<lparr>tabs := (tabs m)(a := None), treeobj := delete_node (treeobj m) a\<rparr>"
  have e1: "eraseTab m (NodeId a) = (True, m1)" using a by (simp add: e m1_def)
  have r: "erase_children m (a # cs) = erase_children m1 cs" by (simp add: e1)
  have na: "n \<noteq> a" "n \<notin> set cs" "a \<notin> set cs" "distinct cs" "a \<notin> set (parents x)"
    "set (parents x) \<inter> set cs = {}"
    using Cons.prems(2,3,5) by auto
  have t1: "\<And>k u. tabs m1 k = Some u \<Longrightarrow> ty u = IT_TAB \<and> node_id u = k"
    using Cons.prems(1) by (auto simp: m1_def split: if_splits)
  have n1: "treeobj m1 n = Some (x\<lparr>children := remove1 a (children x)\<rparr>)"
    using delete_node_parent [OF a(3,4) na(1) Cons.prems(4) na(5)] by (simp add: m1_def)
  have keep: "treeobj m1 k = treeobj m k"
    if "k \<noteq> a" "k \<noteq> n" "\<And>z. treeobj m k = Some z \<Longrightarrow> a \<notin> set (parents z)" for k
    using delete_node_other [of "treeobj m" a y n k] a(3,4) that by (simp add: m1_def)
  have c1: "c \<noteq> [] \<and> tabs m1 c \<noteq> None \<and>
           (\<exists>y. treeobj m1 c = Some y \<and> parent y = Some n \<and> set (parents y) \<inter> set cs = {})"
    if "c \<in> set cs" for c
  proof -
    have "c \<in> set (a # cs)" using that by simp
    from Cons.prems(6) [OF this]
    obtain z where z: "c \<noteq> []" "tabs m c \<noteq> None" "treeobj m c = Some z" "parent z = Some n"
        "set (parents z) \<inter> set (a # cs) = {}"
      by auto
    have ne: "c \<noteq> a" "c \<noteq> n" using \<open>c \<in> set cs\<close> na by auto
    have "treeobj m1 c = treeobj m c"
      using keep [of c] ne z(3,5) by auto
    then show ?thesis using z ne by (auto simp: m1_def)
  qed
  have ih: "fst (erase_children m1 cs) \<and>
     (\<exists>x'. treeobj (snd (erase_children m1 cs)) n = Some x' \<and>
           parent x' = parent (x\<lparr>children := remove1 a (children x)\<rparr>) \<and>
           parents x' = parents (x\<lparr>children := remove1 a (children x)\<rparr>)) \<and>
     (\<forall>k. k \<notin> set cs \<longrightarrow> tabs (snd (erase_children m1 cs)) k = tabs m1 k) \<and>
     (\<forall>k. k \<notin> set cs \<and> k \<noteq> n \<and>
          (\<forall>z. treeobj m1 k = Some z \<longrightarrow> set (parents z) \<inter> set cs = {}) \<longrightarrow>
          treeobj (snd (erase_children m1 cs)) k = treeobj m1 k)"
    using Cons.IH [of m1 "x\<lparr>children := remove1 a (children x)\<rparr>", OF t1 na(4) na(2) n1 _ c1]
      na(6) by simp
  have tabs: "tabs (snd (erase_children m1 cs)) k = tabs m k" if "k \<notin> set (a # cs)" for k
    using ih that by (simp add: m1_def)
  have tree: "treeobj (snd (erase_children m1 cs)) k = treeobj m k"
    if "k \<notin> set (a # cs)" "k \<noteq> n"
      "\<And>z. treeobj m k = Some z \<Longrightarrow> set (parents z) \<inter> set (a # cs) = {}" for k
  proof -
    have k1: "treeobj m1 k = treeobj m k" using keep [of k] that by auto
    have "\<forall>z. treeobj m1 k = Some z \<longrightarrow> set (parents z) \<inter> set cs = {}"
      using that(3) unfolding k1 by auto
    then have "treeobj (snd (erase_children m1 cs)) k = treeobj m1 k"
      using ih that(1,2) by auto
    then show ?thesis using k1 by simp
  qed
  show ?case unfolding r using ih tabs tree by auto
qed

lemma eraseWin_unfold:
  assumes "window_ref m r n v nd"
  shows "eraseWin m r =
     (case erase_children m (children nd) of
        (False, m1) \<Rightarrow> (False, m1)
      | (True, m1) \<Rightarrow>
          (True, (windows_remove_value m1 v)
                   \<lparr>treeobj := delete_node (treeobj (windows_remove_value m1 v)) n\<rparr>))"
  using assms vn_by_vorny_Some [of m r "Some IT_WIN" v n]
  by (simp add: eraseWin_def window_ref_def Let_def split: prod.splits bool.splits)

lemma windows_remove_value_frame [simp]:
  "tabs (windows_remove_value m v) = tabs m"
  "treeobj (windows_remove_value m v) = treeobj m"
  by (simp_all add: windows_remove_value_def)

lemma eraseWin_true:
  assumes ok: "store_ok m" and ref: "window_ref m r n v nd" and par: "parent nd \<noteq> None"
    and ch: "children_ok (treeobj m) n (children nd)"
    and t: "fst (eraseWin m r)"
  shows "windows (snd (eraseWin m r)) n = None"
    and "treeobj (snd (eraseWin m r)) n = None"
    and "c \<in> set (children nd) \<Longrightarrow>
         tabs (snd (eraseWin m r)) c = None \<and> treeobj (snd (eraseWin m r)) c = None"
proof -
  have w: "windows m n = Some v" "treeobj m n = Some nd"
    using ref by (simp_all add: window_ref_def get_node_def)
  note wv = store_ok_window [OF ok w(1)]
  obtain m1 where m1: "erase_children m (children nd) = (True, m1)"
    using t unfolding eraseWin_unfold [OF ref]
    by (cases "erase_children m (children nd)") (auto split: bool.splits)
  have e: "eraseWin m r =
      (True, (windows_remove_value m1 v)
               \<lparr>treeobj := delete_node (treeobj (windows_remove_value m1 v)) n\<rparr>)"
    by (simp add: eraseWin_unfold [OF ref] m1)
  have w1: "windows m1 = windows m" using erase_children_frame(1) [of m "children nd"] m1 by simp
  show "windows (snd (eraseWin m r)) n = None"
    using wv w(1) by (simp add: e windows_remove_value_def w1)
  show "treeobj (snd (eraseWin m r)) n = None"
  proof (cases "treeobj m1 n")
    case None
    then show ?thesis by (simp add: e delete_node_None)
  next
    case (Some z)
    then have "parent z = parent nd"
      using erase_children_Some [of m "children nd" n z] m1 w(2) by auto
    then show ?thesis using Some par by (simp add: e delete_node_self)
  qed
  show "tabs (snd (eraseWin m r)) c = None \<and> treeobj (snd (eraseWin m r)) c = None"
    if c: "c \<in> set (children nd)"
  proof -
    have t1: "\<And>k u. tabs m k = Some u \<Longrightarrow> ty u = IT_TAB \<and> node_id u = k"
      using ok by (simp add: store_ok_def)
    have p1: "\<And>c y. c \<in> set (children nd) \<Longrightarrow> treeobj m c = Some y \<Longrightarrow> parent y \<noteq> None"
      using ch unfolding children_ok_def by fastforce
    have f: "fst (erase_children m (children nd))" by (simp add: m1)
    have "tabs (snd (erase_children m (children nd))) c = None \<and>
          treeobj (snd (erase_children m (children nd))) c = None"
      by (rule erase_children_true [OF f]) (fact t1 p1 c)+
    then show ?thesis by (simp add: e m1 delete_node_None)
  qed
qed

lemma eraseWin_all:
  assumes ok: "store_ok m" and ref: "window_ref m r n v nd"
    and ch: "children_ok (treeobj m) n (children nd)"
    and all: "\<And>c. c \<in> set (children nd) \<Longrightarrow> c \<noteq> [] \<and> tabs m c \<noteq> None \<and> treeobj m c \<noteq> None"
  shows "fst (eraseWin m r)"
proof -
  have w: "treeobj m n = Some nd" using ref by (simp add: window_ref_def get_node_def)
  have t1: "\<And>k u. tabs m k = Some u \<Longrightarrow> ty u = IT_TAB \<and> node_id u = k"
    using ok by (simp add: store_ok_def)
  have c1: "c \<noteq> [] \<and> tabs m c \<noteq> None \<and>
      (\<exists>y. treeobj m c = Some y \<and> parent y = Some n \<and>
           set (parents y) \<inter> set (children nd) = {})" if "c \<in> set (children nd)" for c
    using all [OF that] ch that unfolding children_ok_def by auto
  have "fst (erase_children m (children nd))"
    using erase_children_ok [of m "children nd" n nd, OF t1 _ _ w _ c1] ch w
    unfolding children_ok_def by auto
  then show ?thesis
    unfolding eraseWin_unfold [OF ref]
    by (cases "erase_children m (children nd)") (auto split: bool.splits)
qed

lemma eraseWin_abort:
  assumes ok: "store_ok m" and ref: "window_ref m r n v nd"
    and ch: "children_ok (treeobj m) n (children nd)"
    and cs: "children nd = cs1 @ c # cs2"
    and all0: "\<forall>a \<in> set cs1. a \<noteq> [] \<and> tabs m a \<noteq> None \<and> treeobj m a \<noteq> None"
    and bad: "c = [] \<or> tabs m c = None \<or> treeobj m c = None"
  shows "\<not> fst (eraseWin m r)"
    and "a \<in> set cs1 \<Longrightarrow>
           tabs (snd (eraseWin m r)) a = None \<and> treeobj (snd (eraseWin m r)) a = None"
    and "b \<in> set (c # cs2) \<Longrightarrow>
           tabs (snd (eraseWin m r)) b = tabs m b \<and> treeobj (snd (eraseWin m r)) b = treeobj m b"
    and "windows (snd (eraseWin m r)) n = Some v"
    and "treeobj (snd (eraseWin m r)) n \<noteq> None"
proof -
  have all: "\<And>a. a \<in> set cs1 \<Longrightarrow> a \<noteq> [] \<and> tabs m a \<noteq> None \<and> treeobj m a \<noteq> None"
    using all0 by blast
  have w: "windows m n = Some v" "treeobj m n = Some nd"
    using ref by (simp_all add: window_ref_def get_node_def)
  have t1: "\<And>k u. tabs m k = Some u \<Longrightarrow> ty u = IT_TAB \<and> node_id u = k"
    using ok by (simp add: store_ok_def)
  have d: "distinct cs1" "n \<notin> set cs1" "c \<notin> set cs1" "set cs2 \<inter> set cs1 = {}"
    "n \<noteq> c" "n \<notin> set cs2" "set (parents nd) \<inter> set cs1 = {}"
    using ch w(2) unfolding children_ok_def cs by auto
  have anc: "set (parents y) \<inter> set cs1 = {}"
    if "k \<in> set (children nd)" "treeobj m k = Some y" for k y
    using ch that unfolding children_ok_def cs by fastforce
  have c1: "a \<noteq> [] \<and> tabs m a \<noteq> None \<and>
      (\<exists>y. treeobj m a = Some y \<and> parent y = Some n \<and> set (parents y) \<inter> set cs1 = {})"
    if a: "a \<in> set cs1" for a
  proof -
    obtain y where y: "treeobj m a = Some y" using all [OF a] by blast
    have "a \<in> set (children nd)" using a cs by simp
    then have "parent y = Some n" "set (parents y) \<inter> set cs1 = {}"
      using ch y anc [of a y] unfolding children_ok_def by auto
    then show ?thesis using all [OF a] y by simp
  qed
  note s = erase_children_ok [of m cs1 n nd, OF t1 d(1,2) w(2) d(7) c1]
  obtain m1 where m1: "erase_children m cs1 = (True, m1)"
    using s by (cases "erase_children m cs1") auto
  have tabs1: "tabs m1 k = tabs m k" if "k \<notin> set cs1" for k
    using s that m1 by simp
  have tree1: "treeobj m1 k = treeobj m k"
    if "k \<in> set (c # cs2)" for k
  proof (cases "treeobj m k")
    case None
    then show ?thesis using erase_children_mono(2) [of m k cs1] m1 by simp
  next
    case (Some y)
    have "k \<in> set (children nd)" using that cs by auto
    then have "\<forall>z. treeobj m k = Some z \<longrightarrow> set (parents z) \<inter> set cs1 = {}"
      using anc [of k] by blast
    moreover have "k \<notin> set cs1" "k \<noteq> n" using that d ch unfolding children_ok_def cs by auto
    ultimately show ?thesis using s m1 by simp
  qed
  have "c = [] \<or> tabs m1 c = None \<or> treeobj m1 c = None"
    using bad tabs1 [of c] tree1 [of c] d(3) by auto
  then have "eraseTab m1 (NodeId c) = (False, m1)"
    by (auto simp: eraseTab_def VN_NONE_def get_node_def split: option.splits)
  then have ec: "erase_children m (children nd) = (False, m1)"
    by (simp add: cs erase_children_append m1)
  have e: "eraseWin m r = (False, m1)" by (simp add: eraseWin_unfold [OF ref] ec)
  show "\<not> fst (eraseWin m r)" by (simp add: e)
  show "windows (snd (eraseWin m r)) n = Some v"
    using erase_children_frame(1) [of m cs1] m1 w(1) by (simp add: e)
  show "treeobj (snd (eraseWin m r)) n \<noteq> None" using s m1 by (auto simp: e)
  show "tabs (snd (eraseWin m r)) b = tabs m b \<and> treeobj (snd (eraseWin m r)) b = treeobj m b"
    if "b \<in> set (c # cs2)"
    using tabs1 [of b] tree1 [OF that] that d by (auto simp: e)
  show "tabs (snd (eraseWin m r)) a = None \<and> treeobj (snd (eraseWin m r)) a = None"
    if a: "a \<in> set cs1"
  proof -
    have p1: "\<And>c y. c \<in> set cs1 \<Longrightarrow> treeobj m c = Some y \<Longrightarrow> parent y \<noteq> None"
      using c1 by fastforce
    have f: "fst (erase_children m cs1)" by (simp add: m1)
    have "tabs (snd (erase_children m cs1)) a = None \<and>
          treeobj (snd (erase_children m cs1)) a = None"
      by (rule erase_children_true [OF f]) (fact t1 p1 a)+
    then show ?thesis by (simp add: e m1)
  qed
qed

section \<open>Computing with BLAKE2s\<close>

lemma G_eval: "G (a, b, c, d) x y = mix_a1 b c d y (a + b + x)"
  by (simp add: G_def Let_def)

lemma mix_eval:
  "mix [v0, v1, v2, v3, v4, v5, v6, v7, v8, v9, v10, v11, v12, v13, v14, v15] 0 4 8 12 x y =
     on_quad (\<lambda>p q r t. [p, v1, v2, v3, q, v5, v6, v7, r, v9, v10, v11, t, v13, v14, v15]) (G (v0, v4, v8, v12) x y)"
  "mix [v0, v1, v2, v3, v4, v5, v6, v7, v8, v9, v10, v11, v12, v13, v14, v15] (Suc 0) 5 9 13 x y =
     on_quad (\<lambda>p q r t. [v0, p, v2, v3, v4, q, v6, v7, v8, r, v10, v11, v12, t, v14, v15]) (G (v1, v5, v9, v13) x y)"
  "mix [v0, v1, v2, v3, v4, v5, v6, v7, v8, v9, v10, v11, v12, v13, v14, v15] 2 6 10 14 x y =
     on_quad (\<lambda>p q r t. [v0, v1, p, v3, v4, v5, q, v7, v8, v9, r, v11, v12, v13, t, v15]) (G (v2, v6, v10, v14) x y)"
  "mix [v0, v1, v2, v3, v4, v5, v6, v7, v8, v9, v10, v11, v12, v13, v14, v15] 3 7 11 15 x y =
     on_quad (\<lambda>p q r t. [v0, v1, v2, p, v4, v5, v6, q, v8, v9, v10, r, v12, v13, v14, t]) (G (v3, v7, v11, v15) x y)"
  "mix [v0, v1, v2, v3, v4, v5, v6, v7, v8, v9, v10, v11, v12, v13, v14, v15] 0 5 10 15 x y =
     on_quad (\<lambda>p q r t. [p, v1, v2, v3, v4, q, v6, v7, v8, v9, r, v11, v12, v13, v14, t]) (G (v0, v5, v10, v15) x y)"
  "mix [v0, v1, v2, v3, v4, v5, v6, v7, v8, v9, v10, v11, v12, v13, v14, v15] (Suc 0) 6 11 12 x y =
     on_quad (\<lambda>p q r t. [v0, p, v2, v3, v4, v5, q, v7, v8, v9, v10, r, t, v13, v14, v15]) (G (v1, v6, v11, v12) x y)"
  "mix [v0, v1, v2, v3, v4, v5, v6, v7, v8, v9, v10, v11, v12, v13, v14, v15] 2 7 8 13 x y =
     on_quad (\<lambda>p q r t. [v0, v1, p, v3, v4, v5, v6, q, r, v9, v10, v11, v12, t, v14, v15]) (G (v2, v7, v8, v13) x y)"
  "mix [v0, v1, v2, v3, v4, v5, v6, v7, v8, v9, v10, v11, v12, v13, v14, v15] 3 4 9 14 x y =
     on_quad (\<lambda>p q r t. [v0, v1, v2, p, q, v5, v6, v7, v8, r, v10, v11, v12, v13, t, v15]) (G (v3, v4, v9, v14) x y)"
  by (simp_all add: mix_def split: prod.split)

lemma replicate_numeral_eval: "replicate (numeral k) x = x # replicate (pred_numeral k) x"
  by (simp add: numeral_eq_Suc)

lemma absorb_short: "length buf \<le> 64 \<Longrightarrow> absorb h t buf = (h, t, buf)"
  by (simp add: absorb.simps)

lemma round_fn_row:
  "round_fn [m0, m1, m2, m3, m4, m5, m6, m7, m8, m9, m10, m11, m12, m13, m14, m15] (BLAKE2S_SIGMA ! 0) v =
     mix (mix (mix (mix (mix (mix (mix (mix v 0 4 8 12 m0 m1) 1 5 9 13 m2 m3) 2 6 10 14 m4 m5) 3 7 11 15 m6 m7) 0 5 10 15 m8 m9) 1 6 11 12 m10 m11) 2 7 8 13 m12 m13) 3 4 9 14 m14 m15"
  "round_fn [m0, m1, m2, m3, m4, m5, m6, m7, m8, m9, m10, m11, m12, m13, m14, m15] (BLAKE2S_SIGMA ! 1) v =
     mix (mix (mix (mix (mix (mix (mix (mix v 0 4 8 12 m14 m10) 1 5 9 13 m4 m8) 2 6 10 14 m9 m15) 3 7 11 15 m13 m6) 0 5 10 15 m1 m12) 1 6 11 12 m0 m2) 2 7 8 13 m11 m7) 3 4 9 14 m5 m3"
  "round_fn [m0, m1, m2, m3, m4, m5, m6, m7, m8, m9, m10, m11, m12, m13, m14, m15] (BLAKE2S_SIGMA ! 2) v =
     mix (mix (mix (mix (mix (mix (mix (mix v 0 4 8 12 m11 m8) 1 5 9 13 m12 m0) 2 6 10 14 m5 m2) 3 7 11 15 m15 m13) 0 5 10 15 m10 m14) 1 6 11 12 m3 m6) 2 7 8 13 m7 m1) 3 4 9 14 m9 m4"
  "round_fn [m0, m1, m2, m3, m4, m5, m6, m7, m8, m9, m10, m11, m12, m13, m14, m15] (BLAKE2S_SIGMA ! 3) v =
     mix (mix (mix (mix (mix (mix (mix (mix v 0 4 8 12 m7 m9) 1 5 9 13 m3 m1) 2 6 10 14 m13 m12) 3 7 11 15 m11 m14) 0 5 10 15 m2 m6) 1 6 11 12 m5 m10) 2 7 8 13 m4 m0) 3 4 9 14 m15 m8"
  "round_fn [m0, m1, m2, m3, m4, m5, m6, m7, m8, m9, m10, m11, m12, m13, m14, m15] (BLAKE2S_SIGMA ! 4) v =
     mix (mix (mix (mix (mix (mix (mix (mix v 0 4 8 12 m9 m0) 1 5 9 13 m5 m7) 2 6 10 14 m2 m4) 3 7 11 15 m10 m15) 0 5 10 15 m14 m1) 1 6 11 12 m11 m12) 2 7 8 13 m6 m8) 3 4 9 14 m3 m13"
  "round_fn [m0, m1, m2, m3, m4, m5, m6, m7, m8, m9, m10, m11, m12, m13, m14, m15] (BLAKE2S_SIGMA ! 5) v =
     mix (mix (mix (mix (mix (mix (mix (mix v 0 4 8 12 m2 m12) 1 5 9 13 m6 m10) 2 6 10 14 m0 m11) 3 7 11 15 m8 m3) 0 5 10 15 m4 m13) 1 6 11 12 m7 m5) 2 7 8 13 m15 m14) 3 4 9 14 m1 m9"
  "round_fn [m0, m1, m2, m3, m4, m5, m6, m7, m8, m9, m10, m11, m12, m13, m14, m15] (BLAKE2S_SIGMA ! 6) v =
     mix (mix (mix (mix (mix (mix (mix (mix v 0 4 8 12 m12 m5) 1 5 9 13 m1 m15) 2 6 10 14 m14 m13) 3 7 11 15 m4 m10) 0 5 10 15 m0 m7) 1 6 11 12 m6 m3) 2 7 8 13 m9 m2) 3 4 9 14 m8 m11"
  "round_fn [m0, m1, m2, m3, m4, m5, m6, m7, m8, m9, m10, m11, m12, m13, m14, m15] (BLAKE2S_SIGMA ! 7) v =
     mix (mix (mix (mix (mix (mix (mix (mix v 0 4 8 12 m13 m11) 1 5 9 13 m7 m14) 2 6 10 14 m12 m1) 3 7 11 15 m3 m9) 0 5 10 15 m5 m0) 1 6 11 12 m15 m4) 2 7 8 13 m8 m6) 3 4 9 14 m2 m10"
  "round_fn [m0, m1, m2, m3, m4, m5, m6, m7, m8, m9, m10, m11, m12, m13, m14, m15] (BLAKE2S_SIGMA ! 8) v =
     mix (mix (mix (mix (mix (mix (mix (mix v 0 4 8 12 m6 m15) 1 5 9 13 m14 m9) 2 6 10 14 m11 m3) 3 7 11 15 m0 m8) 0 5 10 15 m12 m2) 1 6 11 12 m13 m7) 2 7 8 13 m1 m4) 3 4 9 14 m10 m5"
  "round_fn [m0, m1, m2, m3, m4, m5, m6, m7, m8, m9, m10, m11, m12, m13, m14, m15] (BLAKE2S_SIGMA ! 9) v =
     mix (mix (mix (mix (mix (mix (mix (mix v 0 4 8 12 m10 m2) 1 5 9 13 m8 m4) 2 6 10 14 m7 m6) 3 7 11 15 m1 m5) 0 5 10 15 m15 m11) 1 6 11 12 m9 m14) 2 7 8 13 m3 m12) 3 4 9 14 m13 m0"
  by (simp_all add: round_fn_def BLAKE2S_SIGMA_def)

lemma sigma_rows:
  "BLAKE2S_SIGMA = [BLAKE2S_SIGMA ! 0, BLAKE2S_SIGMA ! 1, BLAKE2S_SIGMA ! 2, BLAKE2S_SIGMA ! 3,
     BLAKE2S_SIGMA ! 4, BLAKE2S_SIGMA ! 5, BLAKE2S_SIGMA ! 6, BLAKE2S_SIGMA ! 7,
     BLAKE2S_SIGMA ! 8, BLAKE2S_SIGMA ! 9]"
  by (simp add: BLAKE2S_SIGMA_def)

lemma fold_rounds:
  "fold f BLAKE2S_SIGMA v =
     f (BLAKE2S_SIGMA ! 9) (f (BLAKE2S_SIGMA ! 8) (f (BLAKE2S_SIGMA ! 7) (f (BLAKE2S_SIGMA ! 6)
       (f (BLAKE2S_SIGMA ! 5) (f (BLAKE2S_SIGMA ! 4) (f (BLAKE2S_SIGMA ! 3) (f (BLAKE2S_SIGMA ! 2)
         (f (BLAKE2S_SIGMA ! 1) (f (BLAKE2S_SIGMA ! 0) v)))))))))"
  by (subst sigma_rows) simp

lemma absorb_length:
  "absorb h t buf = (h', t', buf') \<Longrightarrow> length buf' \<le> 64"
proof (induction h t buf rule: absorb.induct)
  case (1 h t buf)
  show ?case
  proof (cases "64 < length buf")
    case True
    then show ?thesis using 1 by (simp add: absorb.simps [of h t buf])
  next
    case False
    then show ?thesis using 1 by (simp add: absorb.simps [of h t buf])
  qed
qed

lemma absorb_append:
  "absorb h t (buf @ p) = (case absorb h t buf of (h1, t1, b1) \<Rightarrow> absorb h1 t1 (b1 @ p))"
proof (induction h t buf rule: absorb.induct)
  case (1 h t buf)
  show ?case
  proof (cases "64 < length buf")
    case True
    then have "absorb h t (buf @ p) =
        absorb (compress h (take 64 buf) (t + 64) False) (t + 64) (drop 64 buf @ p)"
      by (subst absorb.simps) simp
    then show ?thesis using 1 True by (simp add: absorb.simps [of h t buf])
  next
    case False
    then show ?thesis by (simp add: absorb.simps [of h t buf])
  qed
qed

lemma blake_update_append:
  "blake_update (blake_update st a) b = blake_update st (a @ b)"
proof -
  obtain h1 t1 b1 where a: "absorb (b_h st) (b_t st) (b_buf st @ a) = (h1, t1, b1)"
    by (cases "absorb (b_h st) (b_t st) (b_buf st @ a)") auto
  have "absorb (b_h st) (b_t st) ((b_buf st @ a) @ b) = absorb h1 t1 (b1 @ b)"
    by (simp only: absorb_append [of _ _ "b_buf st @ a"] a prod.case)
  then show ?thesis
    by (cases "absorb h1 t1 (b1 @ b)") (simp add: blake_update_def a)
qed

lemma blake_update_Nil:
  "length (b_buf st) \<le> 64 \<Longrightarrow> blake_update st [] = st"
  by (simp add: blake_update_def absorb_short)

lemma blake_update_buf:
  "length (b_buf (blake_update st p)) \<le> 64"
  using absorb_length [of "b_h st" "b_t st" "b_buf st @ p"]
  by (cases "absorb (b_h st) (b_t st) (b_buf st @ p)") (simp add: blake_update_def)

lemma fold_blake_update:
  "fold (\<lambda>x blake. blake_update blake (f x)) xs (blake_update st p) =
   blake_update st (p @ concat (map f xs))"
  by (induction xs arbitrary: p) (simp_all add: blake_update_append)

lemma utf8_append: "utf8 (a @ b) = utf8 a @ utf8 b"
  by (simp add: utf8_def)

lemma utf8_NUL: "utf8 (s @ [CHR 0x00]) = utf8 s @ [0]"
  by (simp add: utf8_def utf8_char_def)

lemma orderedHashOfStrings_one_update:
  "orderedHashOfStrings strs =
   hexDigest (blake_update (BLAKE2s_new 32) (concat (map (\<lambda>s. utf8 s @ [0]) (as_array strs))))"
proof -
  have n: "blake_update (BLAKE2s_new 32) [] = BLAKE2s_new 32"
    by (rule blake_update_Nil) (simp add: BLAKE2s_new_def)
  have "fold (\<lambda>str blake. blake_update blake (utf8 (str @ [CHR 0x00]))) (as_array strs)
          (blake_update (BLAKE2s_new 32) []) =
        blake_update (BLAKE2s_new 32)
          ([] @ concat (map (\<lambda>str. utf8 (str @ [CHR 0x00])) (as_array strs)))"
    by (rule fold_blake_update)
  then show ?thesis
    by (simp add: orderedHashOfStrings_def n utf8_NUL)
qed

lemma hexDigest_one_block:
  "length p = n \<Longrightarrow> n \<le> 64 \<Longrightarrow>
   hexDigest (blake_update (BLAKE2s_new 32) p) =
     hex (take 32 (concat (map bytes_le
       (compress (b_h (BLAKE2s_new 32)) (p @ replicate (64 - n) 0) n True))))"
  by (simp add: hexDigest_def digest_def blake_update_def absorb_short BLAKE2s_new_def)

lemma words_abc:
  "words_of ([97, 98, 99] @ replicate (64 - 3) 0) =
     [6513249, 0, 0, 0, 0, 0, 0, 0, 0, 0, 0, 0, 0, 0, 0, 0]"
  by (simp add: replicate_numeral_eval)

lemma init_abc:
  "init_work (b_h (BLAKE2s_new 32)) 3 True =
     [1795745351, 3144134277, 1013904242, 2773480762, 1359893119, 2600822924, 528734635, 1541459225,
     1779033703, 3144134277, 1013904242, 2773480762, 1359893116, 2600822924, 3766232660,
     1541459225]"
  by (simp add: init_work_def BLAKE2s_new_def BLAKE2S_IV_def)

lemma round0_abc:
  "round_fn [6513249, 0, 0, 0, 0, 0, 0, 0, 0, 0, 0, 0, 0, 0, 0, 0]
     (BLAKE2S_SIGMA ! 0)
     [1795745351, 3144134277, 1013904242, 2773480762, 1359893119, 2600822924, 528734635, 1541459225,
     1779033703, 3144134277, 1013904242, 2773480762, 1359893116, 2600822924, 3766232660,
     1541459225] =
     [379790382, 3619021368, 3465339467, 2457529825, 2813604057, 2477039950, 2756607025, 1104442779,
     2512335827, 2593767809, 1619671659, 3060152382, 2056115471, 3191312087, 893198054,
     1001671787]"
  by (simp only: round_fn_row) (simp add: mix_eval G_eval rotr32_def)

lemma round1_abc:
  "round_fn [6513249, 0, 0, 0, 0, 0, 0, 0, 0, 0, 0, 0, 0, 0, 0, 0]
     (BLAKE2S_SIGMA ! 1)
     [379790382, 3619021368, 3465339467, 2457529825, 2813604057, 2477039950, 2756607025, 1104442779,
     2512335827, 2593767809, 1619671659, 3060152382, 2056115471, 3191312087, 893198054,
     1001671787] =
     [987959267, 159557995, 3900802484, 1043569430, 4064491725, 241619750, 3758484748, 3583091319,
     403382074, 4243863828, 819684054, 1212646172, 2130757006, 4219762822, 3309627446,
     1380626658]"
  by (simp only: round_fn_row) (simp add: mix_eval G_eval rotr32_def)

lemma round2_abc:
  "round_fn [6513249, 0, 0, 0, 0, 0, 0, 0, 0, 0, 0, 0, 0, 0, 0, 0]
     (BLAKE2S_SIGMA ! 2)
     [987959267, 159557995, 3900802484, 1043569430, 4064491725, 241619750, 3758484748, 3583091319,
     403382074, 4243863828, 819684054, 1212646172, 2130757006, 4219762822, 3309627446,
     1380626658] =
     [2050746243, 2574599873, 3562161887, 3988125729, 2140710722, 283665634, 3568005328, 3325866411,
     1614338718, 1095079088, 4072806581, 2376129719, 3620567797, 2873690591, 2231573074,
     3303931032]"
  by (simp only: round_fn_row) (simp add: mix_eval G_eval rotr32_def)

lemma round3_abc:
  "round_fn [6513249, 0, 0, 0, 0, 0, 0, 0, 0, 0, 0, 0, 0, 0, 0, 0]
     (BLAKE2S_SIGMA ! 3)
     [2050746243, 2574599873, 3562161887, 3988125729, 2140710722, 283665634, 3568005328, 3325866411,
     1614338718, 1095079088, 4072806581, 2376129719, 3620567797, 2873690591, 2231573074,
     3303931032] =
     [713788599, 449479346, 335830399, 3430045933, 943519356, 3767592953, 807785078, 1473269220,
     2571873520, 4036503385, 4051624704, 3566191317, 3699723280, 1379440809, 3225030537,
     1205259656]"
  by (simp only: round_fn_row) (simp add: mix_eval G_eval rotr32_def)

lemma round4_abc:
  "round_fn [6513249, 0, 0, 0, 0, 0, 0, 0, 0, 0, 0, 0, 0, 0, 0, 0]
     (BLAKE2S_SIGMA ! 4)
     [713788599, 449479346, 335830399, 3430045933, 943519356, 3767592953, 807785078, 1473269220,
     2571873520, 4036503385, 4051624704, 3566191317, 3699723280, 1379440809, 3225030537,
     1205259656] =
     [3299487195, 286475171, 3578425354, 1464467625, 2239584840, 2984319369, 1868321503, 3710669731,
     1737383822, 2534986985, 1647097476, 2459394166, 239183127, 899531454, 2275966429,
     1681890540]"
  by (simp only: round_fn_row) (simp add: mix_eval G_eval rotr32_def)

lemma round5_abc:
  "round_fn [6513249, 0, 0, 0, 0, 0, 0, 0, 0, 0, 0, 0, 0, 0, 0, 0]
     (BLAKE2S_SIGMA ! 5)
     [3299487195, 286475171, 3578425354, 1464467625, 2239584840, 2984319369, 1868321503, 3710669731,
     1737383822, 2534986985, 1647097476, 2459394166, 239183127, 899531454, 2275966429,
     1681890540] =
     [877892124, 3612958433, 1496217453, 1054255476, 1301904563, 3734115011, 900593097, 2568420709,
     2522230409, 1319962514, 3959170834, 595981746, 4081451259, 3619430651, 3947178619,
     3974212160]"
  by (simp only: round_fn_row) (simp add: mix_eval G_eval rotr32_def)

lemma round6_abc:
  "round_fn [6513249, 0, 0, 0, 0, 0, 0, 0, 0, 0, 0, 0, 0, 0, 0, 0]
     (BLAKE2S_SIGMA ! 6)
     [877892124, 3612958433, 1496217453, 1054255476, 1301904563, 3734115011, 900593097, 2568420709,
     2522230409, 1319962514, 3959170834, 595981746, 4081451259, 3619430651, 3947178619,
     3974212160] =
     [3196394285, 2824823640, 2179398715, 196247552, 4199916346, 2277384109, 1092171535, 505569706,
     2704379859, 4096956438, 118981570, 1850960525, 2592187905, 3891036401, 2898303304,
     4165576068]"
  by (simp only: round_fn_row) (simp add: mix_eval G_eval rotr32_def)

lemma round7_abc:
  "round_fn [6513249, 0, 0, 0, 0, 0, 0, 0, 0, 0, 0, 0, 0, 0, 0, 0]
     (BLAKE2S_SIGMA ! 7)
     [3196394285, 2824823640, 2179398715, 196247552, 4199916346, 2277384109, 1092171535, 505569706,
     2704379859, 4096956438, 118981570, 1850960525, 2592187905, 3891036401, 2898303304,
     4165576068] =
     [132495450, 110936420, 4192088385, 2775533184, 2655259346, 2595641834, 1015331185, 568056271,
     1181327244, 1985107948, 2937952652, 1977926582, 1379432668, 812732437, 964685441,
     1327474585]"
  by (simp only: round_fn_row) (simp add: mix_eval G_eval rotr32_def)

lemma round8_abc:
  "round_fn [6513249, 0, 0, 0, 0, 0, 0, 0, 0, 0, 0, 0, 0, 0, 0, 0]
     (BLAKE2S_SIGMA ! 8)
     [132495450, 110936420, 4192088385, 2775533184, 2655259346, 2595641834, 1015331185, 568056271,
     1181327244, 1985107948, 2937952652, 1977926582, 1379432668, 812732437, 964685441,
     1327474585] =
     [1129400516, 2779393297, 1261781363, 3577986206, 3181533468, 3206358377, 1338716448, 1887099464,
     1448820702, 852085014, 3941900715, 2969669416, 2155403640, 1756226741, 2541288867,
     677624110]"
  by (simp only: round_fn_row) (simp add: mix_eval G_eval rotr32_def)

lemma round9_abc:
  "round_fn [6513249, 0, 0, 0, 0, 0, 0, 0, 0, 0, 0, 0, 0, 0, 0, 0]
     (BLAKE2S_SIGMA ! 9)
     [1129400516, 2779393297, 1261781363, 3577986206, 3181533468, 3206358377, 1338716448, 1887099464,
     1448820702, 852085014, 3941900715, 2969669416, 2155403640, 1756226741, 2541288867,
     677624110] =
     [3653866666, 3488365222, 1879902898, 741893902, 2942967654, 486686451, 496943741, 2488489893,
     1050672829, 2527062033, 4014497313, 2788325754, 3740207150, 2940043489, 1317438107,
     1307245882]"
  by (simp only: round_fn_row) (simp add: mix_eval G_eval rotr32_def)

lemma finish_abc:
  "finish (b_h (BLAKE2s_new 32))
     [3653866666, 3488365222, 1879902898, 741893902, 2942967654, 486686451, 496943741, 2488489893,
     1050672829, 2527062033, 4014497313, 2788325754, 3740207150, 2940043489, 1317438107,
     1307245882] =
     [2355006544, 3792993330, 2737547233, 793111374, 545998135, 691721886, 1285265741, 2186897286]"
  by (simp add: finish_def BLAKE2s_new_def BLAKE2S_IV_def)

lemma compress_abc:
  "compress (b_h (BLAKE2s_new 32)) ([97, 98, 99] @ replicate (64 - 3) 0) 3 True =
     [2355006544, 3792993330, 2737547233, 793111374, 545998135, 691721886, 1285265741, 2186897286]"
  by (simp only: compress_def words_abc init_abc fold_rounds
        round0_abc round1_abc round2_abc round3_abc round4_abc round5_abc round6_abc round7_abc round8_abc round9_abc finish_abc)

lemma words_a_b:
  "words_of ([97, 0, 98, 0] @ replicate (64 - 4) 0) =
     [6422625, 0, 0, 0, 0, 0, 0, 0, 0, 0, 0, 0, 0, 0, 0, 0]"
  by (simp add: replicate_numeral_eval)

lemma init_a_b:
  "init_work (b_h (BLAKE2s_new 32)) 4 True =
     [1795745351, 3144134277, 1013904242, 2773480762, 1359893119, 2600822924, 528734635, 1541459225,
     1779033703, 3144134277, 1013904242, 2773480762, 1359893115, 2600822924, 3766232660,
     1541459225]"
  by (simp add: init_work_def BLAKE2s_new_def BLAKE2S_IV_def)

lemma round0_a_b:
  "round_fn [6422625, 0, 0, 0, 0, 0, 0, 0, 0, 0, 0, 0, 0, 0, 0, 0]
     (BLAKE2S_SIGMA ! 0)
     [1795745351, 3144134277, 1013904242, 2773480762, 1359893119, 2600822924, 528734635, 1541459225,
     1779033703, 3144134277, 1013904242, 2773480762, 1359893115, 2600822924, 3766232660,
     1541459225] =
     [331359998, 903035223, 2501498940, 1527671519, 1985424593, 1952152607, 4271240372, 1819082766,
     1888678738, 3164626863, 2644045208, 2777621108, 3073969575, 3379305453, 713502451,
     3128098665]"
  by (simp only: round_fn_row) (simp add: mix_eval G_eval rotr32_def)

lemma round1_a_b:
  "round_fn [6422625, 0, 0, 0, 0, 0, 0, 0, 0, 0, 0, 0, 0, 0, 0, 0]
     (BLAKE2S_SIGMA ! 1)
     [331359998, 903035223, 2501498940, 1527671519, 1985424593, 1952152607, 4271240372, 1819082766,
     1888678738, 3164626863, 2644045208, 2777621108, 3073969575, 3379305453, 713502451,
     3128098665] =
     [4023878995, 630811615, 130052474, 810978022, 4135330107, 3324158371, 132217776, 3885027219,
     2827597149, 319154166, 712200369, 3669138661, 1146716974, 2625160212, 4292143908,
     3437185518]"
  by (simp only: round_fn_row) (simp add: mix_eval G_eval rotr32_def)

lemma round2_a_b:
  "round_fn [6422625, 0, 0, 0, 0, 0, 0, 0, 0, 0, 0, 0, 0, 0, 0, 0]
     (BLAKE2S_SIGMA ! 2)
     [4023878995, 630811615, 130052474, 810978022, 4135330107, 3324158371, 132217776, 3885027219,
     2827597149, 319154166, 712200369, 3669138661, 1146716974, 2625160212, 4292143908,
     3437185518] =
     [729622572, 4173600257, 3075602935, 2476976333, 4222879513, 3988201350, 340980209, 2761017079,
     1871396925, 159944047, 3400555173, 1011674928, 3887139338, 439392096, 1782516544,
     2465531694]"
  by (simp only: round_fn_row) (simp add: mix_eval G_eval rotr32_def)

lemma round3_a_b:
  "round_fn [6422625, 0, 0, 0, 0, 0, 0, 0, 0, 0, 0, 0, 0, 0, 0, 0]
     (BLAKE2S_SIGMA ! 3)
     [729622572, 4173600257, 3075602935, 2476976333, 4222879513, 3988201350, 340980209, 2761017079,
     1871396925, 159944047, 3400555173, 1011674928, 3887139338, 439392096, 1782516544,
     2465531694] =
     [1237080491, 2423682041, 1664633488, 2726053093, 3343907080, 3043502448, 1626365330, 2367996588,
     1131940743, 1955201859, 823672864, 1933758945, 2013050947, 3294099600, 2792866968,
     1147645300]"
  by (simp only: round_fn_row) (simp add: mix_eval G_eval rotr32_def)

lemma round4_a_b:
  "round_fn [6422625, 0, 0, 0, 0, 0, 0, 0, 0, 0, 0, 0, 0, 0, 0, 0]
     (BLAKE2S_SIGMA ! 4)
     [1237080491, 2423682041, 1664633488, 2726053093, 3343907080, 3043502448, 1626365330, 2367996588,
     1131940743, 1955201859, 823672864, 1933758945, 2013050947, 3294099600, 2792866968,
     1147645300] =
     [15016394, 2570609493, 1221705841, 104342743, 528524166, 1509923104, 2878648053, 4215982379,
     3188046709, 569558065, 1870047790, 3434706672, 1012042637, 1166353735, 3987323150,
     1784184567]"
  by (simp only: round_fn_row) (simp add: mix_eval G_eval rotr32_def)

lemma round5_a_b:
  "round_fn [6422625, 0, 0, 0, 0, 0, 0, 0, 0, 0, 0, 0, 0, 0, 0, 0]
     (BLAKE2S_SIGMA ! 5)
     [15016394, 2570609493, 1221705841, 104342743, 528524166, 1509923104, 2878648053, 4215982379,
     3188046709, 569558065, 1870047790, 3434706672, 1012042637, 1166353735, 3987323150,
     1784184567] =
     [2528835433, 2365905481, 1071149382, 1789600216, 1822202777, 2767323126, 2375454642, 2331875528,
     2451175994, 212053567, 3903734679, 2137071158, 3125033538, 2997715891, 2120988442,
     801122671]"
  by (simp only: round_fn_row) (simp add: mix_eval G_eval rotr32_def)

lemma round6_a_b:
  "round_fn [6422625, 0, 0, 0, 0, 0, 0, 0, 0, 0, 0, 0, 0, 0, 0, 0]
     (BLAKE2S_SIGMA ! 6)
     [2528835433, 2365905481, 1071149382, 1789600216, 1822202777, 2767323126, 2375454642, 2331875528,
     2451175994, 212053567, 3903734679, 2137071158, 3125033538, 2997715891, 2120988442,
     801122671] =
     [1274407616, 2602030444, 368076980, 160286988, 1359387606, 3767655216, 2583998580, 1072229301,
     1341221983, 3367380628, 4212705233, 1328472243, 4122791919, 2666234162, 1242677039,
     2820499308]"
  by (simp only: round_fn_row) (simp add: mix_eval G_eval rotr32_def)

lemma round7_a_b:
  "round_fn [6422625, 0, 0, 0, 0, 0, 0, 0, 0, 0, 0, 0, 0, 0, 0, 0]
     (BLAKE2S_SIGMA ! 7)
     [1274407616, 2602030444, 368076980, 160286988, 1359387606, 3767655216, 2583998580, 1072229301,
     1341221983, 3367380628, 4212705233, 1328472243, 4122791919, 2666234162, 1242677039,
     2820499308] =
     [2098442641, 3121847104, 2708139653, 1676280594, 2195958941, 2137919932, 1849636878, 1038393540,
     2037298669, 2163626607, 2294349734, 4122971661, 2018013518, 303186515, 4052394236,
     1333259749]"
  by (simp only: round_fn_row) (simp add: mix_eval G_eval rotr32_def)

lemma round8_a_b:
  "round_fn [6422625, 0, 0, 0, 0, 0, 0, 0, 0, 0, 0, 0, 0, 0, 0, 0]
     (BLAKE2S_SIGMA ! 8)
     [2098442641, 3121847104, 2708139653, 1676280594, 2195958941, 2137919932, 1849636878, 1038393540,
     2037298669, 2163626607, 2294349734, 4122971661, 2018013518, 303186515, 4052394236,
     1333259749] =
     [2235115586, 2658951108, 488535333, 3681640736, 1878011486, 2495119252, 3257288197, 951169792,
     3647959742, 1919634512, 1902488823, 2456906137, 3506485002, 2572292047, 1048117662,
     2393283228]"
  by (simp only: round_fn_row) (simp add: mix_eval G_eval rotr32_def)

lemma round9_a_b:
  "round_fn [6422625, 0, 0, 0, 0, 0, 0, 0, 0, 0, 0, 0, 0, 0, 0, 0]
     (BLAKE2S_SIGMA ! 9)
     [2235115586, 2658951108, 488535333, 3681640736, 1878011486, 2495119252, 3257288197, 951169792,
     3647959742, 1919634512, 1902488823, 2456906137, 3506485002, 2572292047, 1048117662,
     2393283228] =
     [2074669769, 1535813856, 2306779304, 1671397900, 3335927769, 1988271997, 1390671830, 656556533,
     1113432564, 2645617174, 2636405979, 3871709693, 3439396734, 3157380728, 1187927589,
     4241749491]"
  by (simp only: round_fn_row) (simp add: mix_eval G_eval rotr32_def)

lemma finish_a_b:
  "finish (b_h (BLAKE2s_new 32))
     [2074669769, 1535813856, 2306779304, 1671397900, 3335927769, 1988271997, 1390671830, 656556533,
     1113432564, 2645617174, 2636405979, 3871709693, 3439396734, 3157380728, 1187927589,
     4241749491] =
     [1392358778, 2103307379, 674498305, 538308299, 1524196056, 1370896777, 195983448, 2148628767]"
  by (simp add: finish_def BLAKE2s_new_def BLAKE2S_IV_def)

lemma compress_a_b:
  "compress (b_h (BLAKE2s_new 32)) ([97, 0, 98, 0] @ replicate (64 - 4) 0) 4 True =
     [1392358778, 2103307379, 674498305, 538308299, 1524196056, 1370896777, 195983448, 2148628767]"
  by (simp only: compress_def words_a_b init_a_b fold_rounds
        round0_a_b round1_a_b round2_a_b round3_a_b round4_a_b round5_a_b round6_a_b round7_a_b round8_a_b round9_a_b finish_a_b)

lemma words_ab:
  "words_of ([97, 98, 0] @ replicate (64 - 3) 0) =
     [25185, 0, 0, 0, 0, 0, 0, 0, 0, 0, 0, 0, 0, 0, 0, 0]"
  by (simp add: replicate_numeral_eval)

lemma init_ab:
  "init_work (b_h (BLAKE2s_new 32)) 3 True =
     [1795745351, 3144134277, 1013904242, 2773480762, 1359893119, 2600822924, 528734635, 1541459225,
     1779033703, 3144134277, 1013904242, 2773480762, 1359893116, 2600822924, 3766232660,
     1541459225]"
  by (simp add: init_work_def BLAKE2s_new_def BLAKE2S_IV_def)

lemma round0_ab:
  "round_fn [25185, 0, 0, 0, 0, 0, 0, 0, 0, 0, 0, 0, 0, 0, 0, 0]
     (BLAKE2S_SIGMA ! 0)
     [1795745351, 3144134277, 1013904242, 2773480762, 1359893119, 2600822924, 528734635, 1541459225,
     1779033703, 3144134277, 1013904242, 2773480762, 1359893116, 2600822924, 3766232660,
     1541459225] =
     [2197824558, 123326817, 425625012, 1755993740, 1975951413, 1814444690, 650455167, 469505083,
     878558289, 2403178696, 184013844, 2724736902, 697317713, 1105222832, 2639485936,
     3860983649]"
  by (simp only: round_fn_row) (simp add: mix_eval G_eval rotr32_def)

lemma round1_ab:
  "round_fn [25185, 0, 0, 0, 0, 0, 0, 0, 0, 0, 0, 0, 0, 0, 0, 0]
     (BLAKE2S_SIGMA ! 1)
     [2197824558, 123326817, 425625012, 1755993740, 1975951413, 1814444690, 650455167, 469505083,
     878558289, 2403178696, 184013844, 2724736902, 697317713, 1105222832, 2639485936,
     3860983649] =
     [4247022831, 3904816102, 61505770, 2553115358, 4197226393, 826479851, 3569876498, 4020300947,
     2442682918, 1671649878, 47778409, 1750200968, 3321455245, 2386376515, 2958153020,
     1388187997]"
  by (simp only: round_fn_row) (simp add: mix_eval G_eval rotr32_def)

lemma round2_ab:
  "round_fn [25185, 0, 0, 0, 0, 0, 0, 0, 0, 0, 0, 0, 0, 0, 0, 0]
     (BLAKE2S_SIGMA ! 2)
     [4247022831, 3904816102, 61505770, 2553115358, 4197226393, 826479851, 3569876498, 4020300947,
     2442682918, 1671649878, 47778409, 1750200968, 3321455245, 2386376515, 2958153020,
     1388187997] =
     [4055045189, 1435988803, 2273356067, 1468552239, 4058843545, 2882662390, 337648937, 479957081,
     764404452, 878438703, 515290021, 579343322, 427460960, 894947091, 2414058503, 1150668492]"
  by (simp only: round_fn_row) (simp add: mix_eval G_eval rotr32_def)

lemma round3_ab:
  "round_fn [25185, 0, 0, 0, 0, 0, 0, 0, 0, 0, 0, 0, 0, 0, 0, 0]
     (BLAKE2S_SIGMA ! 3)
     [4055045189, 1435988803, 2273356067, 1468552239, 4058843545, 2882662390, 337648937, 479957081,
     764404452, 878438703, 515290021, 579343322, 427460960, 894947091, 2414058503, 1150668492] =
     [1394751515, 4202793242, 5530565, 2776098475, 3410983591, 3774310044, 935492663, 2447480899,
     2059929019, 2391753889, 465707591, 477840813, 2491271093, 233343379, 4086734000,
     1097079929]"
  by (simp only: round_fn_row) (simp add: mix_eval G_eval rotr32_def)

lemma round4_ab:
  "round_fn [25185, 0, 0, 0, 0, 0, 0, 0, 0, 0, 0, 0, 0, 0, 0, 0]
     (BLAKE2S_SIGMA ! 4)
     [1394751515, 4202793242, 5530565, 2776098475, 3410983591, 3774310044, 935492663, 2447480899,
     2059929019, 2391753889, 465707591, 477840813, 2491271093, 233343379, 4086734000,
     1097079929] =
     [327439258, 3758482726, 493275292, 209174157, 2040063335, 3987493142, 2276786198, 2529483640,
     110515716, 1509718431, 3992278716, 12938913, 3885828062, 648859197, 1906948749, 789138585]"
  by (simp only: round_fn_row) (simp add: mix_eval G_eval rotr32_def)

lemma round5_ab:
  "round_fn [25185, 0, 0, 0, 0, 0, 0, 0, 0, 0, 0, 0, 0, 0, 0, 0]
     (BLAKE2S_SIGMA ! 5)
     [327439258, 3758482726, 493275292, 209174157, 2040063335, 3987493142, 2276786198, 2529483640,
     110515716, 1509718431, 3992278716, 12938913, 3885828062, 648859197, 1906948749, 789138585] =
     [3737922913, 993784392, 3681978958, 2027351184, 615899699, 1052426173, 1650523215, 1769457546,
     2088221435, 701914795, 1220011516, 301962293, 663458488, 2092767704, 4124637305,
     3935505031]"
  by (simp only: round_fn_row) (simp add: mix_eval G_eval rotr32_def)

lemma round6_ab:
  "round_fn [25185, 0, 0, 0, 0, 0, 0, 0, 0, 0, 0, 0, 0, 0, 0, 0]
     (BLAKE2S_SIGMA ! 6)
     [3737922913, 993784392, 3681978958, 2027351184, 615899699, 1052426173, 1650523215, 1769457546,
     2088221435, 701914795, 1220011516, 301962293, 663458488, 2092767704, 4124637305,
     3935505031] =
     [3066094470, 3958377471, 616838839, 72954216, 3121326890, 514762863, 2663721343, 1097590371,
     2784537280, 622866587, 159810746, 3616308427, 1668992963, 2597844171, 390780351,
     1572981670]"
  by (simp only: round_fn_row) (simp add: mix_eval G_eval rotr32_def)

lemma round7_ab:
  "round_fn [25185, 0, 0, 0, 0, 0, 0, 0, 0, 0, 0, 0, 0, 0, 0, 0]
     (BLAKE2S_SIGMA ! 7)
     [3066094470, 3958377471, 616838839, 72954216, 3121326890, 514762863, 2663721343, 1097590371,
     2784537280, 622866587, 159810746, 3616308427, 1668992963, 2597844171, 390780351,
     1572981670] =
     [2587000689, 325297690, 1725268516, 2794875074, 4109945233, 2210135342, 2330529795, 3164595743,
     3990503063, 552563655, 3709324058, 3917083633, 3963744980, 1539700011, 3190405740,
     2510544656]"
  by (simp only: round_fn_row) (simp add: mix_eval G_eval rotr32_def)

lemma round8_ab:
  "round_fn [25185, 0, 0, 0, 0, 0, 0, 0, 0, 0, 0, 0, 0, 0, 0, 0]
     (BLAKE2S_SIGMA ! 8)
     [2587000689, 325297690, 1725268516, 2794875074, 4109945233, 2210135342, 2330529795, 3164595743,
     3990503063, 552563655, 3709324058, 3917083633, 3963744980, 1539700011, 3190405740,
     2510544656] =
     [32294331, 907095219, 3670510681, 366471617, 3634088475, 1445171435, 1651528737, 3385445253,
     186064096, 3144830328, 516091878, 803056848, 1503739344, 2869538671, 890257318, 464327376]"
  by (simp only: round_fn_row) (simp add: mix_eval G_eval rotr32_def)

lemma round9_ab:
  "round_fn [25185, 0, 0, 0, 0, 0, 0, 0, 0, 0, 0, 0, 0, 0, 0, 0]
     (BLAKE2S_SIGMA ! 9)
     [32294331, 907095219, 3670510681, 366471617, 3634088475, 1445171435, 1651528737, 3385445253,
     186064096, 3144830328, 516091878, 803056848, 1503739344, 2869538671, 890257318, 464327376] =
     [29276472, 2168111871, 1134764423, 3121824879, 2750107610, 570816353, 3851376878, 1808653063,
     3906111389, 173036444, 1497335213, 901211247, 696693592, 598841989, 2873423293, 4029097777]"
  by (simp only: round_fn_row) (simp add: mix_eval G_eval rotr32_def)

lemma finish_ab:
  "finish (b_h (BLAKE2s_new 32))
     [29276472, 2168111871, 1134764423, 3121824879, 2750107610, 570816353, 3851376878, 1808653063,
     3906111389, 173036444, 1497335213, 901211247, 696693592, 598841989, 2873423293, 4029097777] =
     [2187647202, 806174694, 653416280, 720098618, 3680743165, 2595292520, 1363703032, 3221893423]"
  by (simp add: finish_def BLAKE2s_new_def BLAKE2S_IV_def)

lemma compress_ab:
  "compress (b_h (BLAKE2s_new 32)) ([97, 98, 0] @ replicate (64 - 3) 0) 3 True =
     [2187647202, 806174694, 653416280, 720098618, 3680743165, 2595292520, 1363703032, 3221893423]"
  by (simp only: compress_def words_ab init_ab fold_rounds
        round0_ab round1_ab round2_ab round3_ab round4_ab round5_ab round6_ab round7_ab round8_ab round9_ab finish_ab)

lemma words_a_bc:
  "words_of ([97, 0, 98, 99, 0] @ replicate (64 - 5) 0) =
     [1667367009, 0, 0, 0, 0, 0, 0, 0, 0, 0, 0, 0, 0, 0, 0, 0]"
  by (simp add: replicate_numeral_eval)

lemma init_a_bc:
  "init_work (b_h (BLAKE2s_new 32)) 5 True =
     [1795745351, 3144134277, 1013904242, 2773480762, 1359893119, 2600822924, 528734635, 1541459225,
     1779033703, 3144134277, 1013904242, 2773480762, 1359893114, 2600822924, 3766232660,
     1541459225]"
  by (simp add: init_work_def BLAKE2s_new_def BLAKE2S_IV_def)

lemma round0_a_bc:
  "round_fn [1667367009, 0, 0, 0, 0, 0, 0, 0, 0, 0, 0, 0, 0, 0, 0, 0]
     (BLAKE2S_SIGMA ! 0)
     [1795745351, 3144134277, 1013904242, 2773480762, 1359893119, 2600822924, 528734635, 1541459225,
     1779033703, 3144134277, 1013904242, 2773480762, 1359893114, 2600822924, 3766232660,
     1541459225] =
     [3602924395, 3485676422, 2399663778, 1845078864, 1158513024, 1403323064, 2739119462, 459376220,
     4039261383, 3778383079, 312976040, 683131243, 969064127, 1467352515, 2044500471, 800573817]"
  by (simp only: round_fn_row) (simp add: mix_eval G_eval rotr32_def)

lemma round1_a_bc:
  "round_fn [1667367009, 0, 0, 0, 0, 0, 0, 0, 0, 0, 0, 0, 0, 0, 0, 0]
     (BLAKE2S_SIGMA ! 1)
     [3602924395, 3485676422, 2399663778, 1845078864, 1158513024, 1403323064, 2739119462, 459376220,
     4039261383, 3778383079, 312976040, 683131243, 969064127, 1467352515, 2044500471, 800573817] =
     [102490082, 1992683527, 3890712885, 1886936790, 2652047463, 305486810, 4166701033, 612538372,
     402853101, 1058900952, 3374533866, 2263015012, 752299676, 3248765599, 3939423916,
     4259357307]"
  by (simp only: round_fn_row) (simp add: mix_eval G_eval rotr32_def)

lemma round2_a_bc:
  "round_fn [1667367009, 0, 0, 0, 0, 0, 0, 0, 0, 0, 0, 0, 0, 0, 0, 0]
     (BLAKE2S_SIGMA ! 2)
     [102490082, 1992683527, 3890712885, 1886936790, 2652047463, 305486810, 4166701033, 612538372,
     402853101, 1058900952, 3374533866, 2263015012, 752299676, 3248765599, 3939423916,
     4259357307] =
     [143371786, 496705850, 1480779795, 3136356585, 980707645, 1915937142, 4205097415, 1301789538,
     3786844048, 1081447874, 1237793702, 2975988932, 3800623072, 1858085296, 2613353435,
     103706180]"
  by (simp only: round_fn_row) (simp add: mix_eval G_eval rotr32_def)

lemma round3_a_bc:
  "round_fn [1667367009, 0, 0, 0, 0, 0, 0, 0, 0, 0, 0, 0, 0, 0, 0, 0]
     (BLAKE2S_SIGMA ! 3)
     [143371786, 496705850, 1480779795, 3136356585, 980707645, 1915937142, 4205097415, 1301789538,
     3786844048, 1081447874, 1237793702, 2975988932, 3800623072, 1858085296, 2613353435,
     103706180] =
     [2938591385, 1488479374, 2914509211, 875747426, 1288849933, 1514143151, 1048126371, 3505807006,
     2692145565, 798334605, 1383601894, 666212455, 2948273720, 1320158584, 1101495459,
     3793931561]"
  by (simp only: round_fn_row) (simp add: mix_eval G_eval rotr32_def)

lemma round4_a_bc:
  "round_fn [1667367009, 0, 0, 0, 0, 0, 0, 0, 0, 0, 0, 0, 0, 0, 0, 0]
     (BLAKE2S_SIGMA ! 4)
     [2938591385, 1488479374, 2914509211, 875747426, 1288849933, 1514143151, 1048126371, 3505807006,
     2692145565, 798334605, 1383601894, 666212455, 2948273720, 1320158584, 1101495459,
     3793931561] =
     [184893579, 2961612662, 3757705746, 2505695887, 2001199673, 2251864891, 2219185719, 3816682599,
     2927936142, 1433847112, 4227950689, 1017305479, 1116658739, 606577934, 1311786214,
     4203758323]"
  by (simp only: round_fn_row) (simp add: mix_eval G_eval rotr32_def)

lemma round5_a_bc:
  "round_fn [1667367009, 0, 0, 0, 0, 0, 0, 0, 0, 0, 0, 0, 0, 0, 0, 0]
     (BLAKE2S_SIGMA ! 5)
     [184893579, 2961612662, 3757705746, 2505695887, 2001199673, 2251864891, 2219185719, 3816682599,
     2927936142, 1433847112, 4227950689, 1017305479, 1116658739, 606577934, 1311786214,
     4203758323] =
     [1968254105, 734449398, 1520489664, 3530294674, 1790745745, 75041267, 3194359388, 1994944908,
     4004839249, 3262012334, 1099019594, 1878713804, 1493541817, 788688651, 4271698889,
     902043331]"
  by (simp only: round_fn_row) (simp add: mix_eval G_eval rotr32_def)

lemma round6_a_bc:
  "round_fn [1667367009, 0, 0, 0, 0, 0, 0, 0, 0, 0, 0, 0, 0, 0, 0, 0]
     (BLAKE2S_SIGMA ! 6)
     [1968254105, 734449398, 1520489664, 3530294674, 1790745745, 75041267, 3194359388, 1994944908,
     4004839249, 3262012334, 1099019594, 1878713804, 1493541817, 788688651, 4271698889,
     902043331] =
     [3090542935, 3239907162, 3559940133, 3809463323, 3599628815, 2230425459, 3340576122, 3020926476,
     2939570329, 2352202015, 2162433988, 1771287805, 12980401, 3168859894, 245787003,
     3060855486]"
  by (simp only: round_fn_row) (simp add: mix_eval G_eval rotr32_def)

lemma round7_a_bc:
  "round_fn [1667367009, 0, 0, 0, 0, 0, 0, 0, 0, 0, 0, 0, 0, 0, 0, 0]
     (BLAKE2S_SIGMA ! 7)
     [3090542935, 3239907162, 3559940133, 3809463323, 3599628815, 2230425459, 3340576122, 3020926476,
     2939570329, 2352202015, 2162433988, 1771287805, 12980401, 3168859894, 245787003,
     3060855486] =
     [2011156637, 4068331975, 283994422, 599477222, 596261976, 3318130367, 558146460, 2622107473,
     2414739606, 4159323906, 2988262194, 1998667690, 1730035105, 1746925901, 1700253608,
     662588962]"
  by (simp only: round_fn_row) (simp add: mix_eval G_eval rotr32_def)

lemma round8_a_bc:
  "round_fn [1667367009, 0, 0, 0, 0, 0, 0, 0, 0, 0, 0, 0, 0, 0, 0, 0]
     (BLAKE2S_SIGMA ! 8)
     [2011156637, 4068331975, 283994422, 599477222, 596261976, 3318130367, 558146460, 2622107473,
     2414739606, 4159323906, 2988262194, 1998667690, 1730035105, 1746925901, 1700253608,
     662588962] =
     [275772913, 1504968816, 2284237283, 556465864, 3104531254, 3695243407, 2283894651, 955443483,
     1620092280, 686374668, 4065867702, 3288521263, 185463921, 1991980564, 468082669,
     1738897020]"
  by (simp only: round_fn_row) (simp add: mix_eval G_eval rotr32_def)

lemma round9_a_bc:
  "round_fn [1667367009, 0, 0, 0, 0, 0, 0, 0, 0, 0, 0, 0, 0, 0, 0, 0]
     (BLAKE2S_SIGMA ! 9)
     [275772913, 1504968816, 2284237283, 556465864, 3104531254, 3695243407, 2283894651, 955443483,
     1620092280, 686374668, 4065867702, 3288521263, 185463921, 1991980564, 468082669,
     1738897020] =
     [459737183, 1925202750, 3001173558, 4005003190, 3385541104, 3803887805, 1014174928, 1474252019,
     2119886850, 4234974226, 2716578670, 2807960762, 1877229313, 1993672303, 453599137,
     679093852]"
  by (simp only: round_fn_row) (simp add: mix_eval G_eval rotr32_def)

lemma finish_a_bc:
  "finish (b_h (BLAKE2s_new 32))
     [459737183, 1925202750, 3001173558, 4005003190, 3385541104, 3803887805, 1014174928, 1474252019,
     2119886850, 4234974226, 2716578670, 2807960762, 1877229313, 1993672303, 453599137,
     679093852] =
     [238355994, 902527401, 795280938, 3970342454, 4146146446, 258659934, 955880154, 608544694]"
  by (simp add: finish_def BLAKE2s_new_def BLAKE2S_IV_def)

lemma compress_a_bc:
  "compress (b_h (BLAKE2s_new 32)) ([97, 0, 98, 99, 0] @ replicate (64 - 5) 0) 5 True =
     [238355994, 902527401, 795280938, 3970342454, 4146146446, 258659934, 955880154, 608544694]"
  by (simp only: compress_def words_a_bc init_a_bc fold_rounds
        round0_a_bc round1_a_bc round2_a_bc round3_a_bc round4_a_bc round5_a_bc round6_a_bc round7_a_bc round8_a_bc round9_a_bc finish_a_bc)

lemma kat_abc:
  "hexDigest (blake_update (BLAKE2s_new 32) (utf8 ''abc'')) =
   ''508c5e8c327c14e2e1a72ba34eeb452f37458b209ed63a294d999b4c86675982''"
proof -
  have u: "utf8 ''abc'' = [97, 98, 99]"
    by (simp add: utf8_def utf8_char_def)
  have "hexDigest (blake_update (BLAKE2s_new 32) [97, 98, 99]) =
     hex (take 32 (concat (map bytes_le
       (compress (b_h (BLAKE2s_new 32)) ([97, 98, 99] @ replicate (64 - 3) 0) 3 True))))"
    by (rule hexDigest_one_block) simp_all
  then show ?thesis
    unfolding u compress_abc by (simp add: hex_def bytes_le_def hex_byte_def hex_digit_def)
qed

lemma hash_a_b:
  "orderedHashOfStrings (Array [''a'', ''b'']) =
   ''7ab5fd5273ec5d7d01073428cbee1520d862d95a8939b6515878ae0b1f791180''"
proof -
  have u: "concat (map (\<lambda>s. utf8 s @ [0]) (as_array (Array [''a'', ''b'']))) = [97, 0, 98, 0]"
    by (simp add: utf8_def utf8_char_def)
  have "hexDigest (blake_update (BLAKE2s_new 32) [97, 0, 98, 0]) =
     hex (take 32 (concat (map bytes_le
       (compress (b_h (BLAKE2s_new 32)) ([97, 0, 98, 0] @ replicate (64 - 4) 0) 4 True))))"
    by (rule hexDigest_one_block) simp_all
  then show ?thesis
    unfolding orderedHashOfStrings_one_update u compress_a_b
    by (simp add: hex_def bytes_le_def hex_byte_def hex_digit_def)
qed

lemma hash_ab:
  "orderedHashOfStrings (Array [''ab'']) =
   ''e2d86482e63f0d305857f2263ad5eb2afdae63db6805b19af87448512f310ac0''"
proof -
  have u: "concat (map (\<lambda>s. utf8 s @ [0]) (as_array (Array [''ab'']))) = [97, 98, 0]"
    by (simp add: utf8_def utf8_char_def)
  have "hexDigest (blake_update (BLAKE2s_new 32) [97, 98, 0]) =
     hex (take 32 (concat (map bytes_le
       (compress (b_h (BLAKE2s_new 32)) ([97, 98, 0] @ replicate (64 - 3) 0) 3 True))))"
    by (rule hexDigest_one_block) simp_all
  then show ?thesis
    unfolding orderedHashOfStrings_one_update u compress_ab
    by (simp add: hex_def bytes_le_def hex_byte_def hex_digit_def)
qed

lemma hash_a_bc:
  "orderedHashOfStrings (Array [''a'', ''bc'']) =
   ''1a06350ea979cb352a06672f369ea6ec8e2c21f75ed66a0fda92f938b6a74524''"
proof -
  have u: "concat (map (\<lambda>s. utf8 s @ [0]) (as_array (Array [''a'', ''bc'']))) =
           [97, 0, 98, 99, 0]"
    by (simp add: utf8_def utf8_char_def)
  have "hexDigest (blake_update (BLAKE2s_new 32) [97, 0, 98, 99, 0]) =
     hex (take 32 (concat (map bytes_le
       (compress (b_h (BLAKE2s_new 32)) ([97, 0, 98, 99, 0] @ replicate (64 - 5) 0) 5 True))))"
    by (rule hexDigest_one_block) simp_all
  then show ?thesis
    unfolding orderedHashOfStrings_one_update u compress_a_bc
    by (simp add: hex_def bytes_le_def hex_byte_def hex_digit_def)
qed

section \<open>Claim C9: \<open>remove_unsaved_markers\<close>\<close>

text \<open>
  C9 (as amended). \<open>remove_unsaved_markers("Foo (Unsaved) (Unsaved)")\<close> is \<open>"Foo"\<close>; a string
  in which the text \<open>(Unsaved)\<close> occurs in no letter case is returned unchanged; a falsy
  input is returned as it is. The claim as stated asks this of every string without the
  marker \<open>(Unsaved)\<close>; the expression of the source carries the flag \<open>i\<close>, so a marker
  in another letter case is removed as well (\<open>C9_counterexample\<close>).
\<close>

theorem C9_remove_unsaved_markers:
  "remove_unsaved_markers (Str ''Foo (Unsaved) (Unsaved)'') = Str ''Foo'' \<and>
   (\<forall>s. \<not> occurs_in_ci marker s \<longrightarrow> remove_unsaved_markers (Str s) = Str s) \<and>
   (\<forall>v. \<not> truthy v \<longrightarrow> remove_unsaved_markers v = v)"
proof (intro conjI allI impI)
  show "remove_unsaved_markers (Str ''Foo (Unsaved) (Unsaved)'') = Str ''Foo''"
    by code_simp
next
  fix s
  assume "\<not> occurs_in_ci marker s"
  then have "re_match s = None" by (rule no_marker_no_match)
  then show "remove_unsaved_markers (Str s) = Str s"
    by (simp add: remove_unsaved_markers_Str strip_markers_def)
next
  fix v
  assume "\<not> truthy v"
  then show "remove_unsaved_markers v = v" by (cases v) auto
qed

text \<open>The theorem at a string without a marker, at the empty string and at \<open>null\<close>.\<close>

theorem C9_witness:
  "\<not> occurs_in_ci marker ''Foo bar'' \<and>
   remove_unsaved_markers (Str ''Foo bar'') = Str ''Foo bar'' \<and>
   \<not> truthy (Str '''') \<and> remove_unsaved_markers (Str '''') = Str '''' \<and>
   \<not> truthy Null \<and> remove_unsaved_markers Null = Null"
proof -
  have a: "\<not> occurs_in_ci marker ''Foo bar''" by code_simp
  have b: "\<not> truthy (Str '''')" "\<not> truthy Null" by simp_all
  show ?thesis
    using a b C9_remove_unsaved_markers by blast
qed

text \<open>The string \<open>"Foo (unsaved)"\<close> does not contain \<open>(Unsaved)\<close>, and is not returned
  unchanged.\<close>

theorem C9_counterexample:
  "\<not> occurs_in ''(Unsaved)'' ''Foo (unsaved)'' \<and>
   remove_unsaved_markers (Str ''Foo (unsaved)'') = Str ''Foo''"
  by code_simp

section \<open>Claim C8: \<open>remember\<close> and \<open>mark_win_as_unsaved\<close>\<close>

lemma remember_window:
  assumes "windows m n = Some v" "n \<noteq> []" "ty v = IT_WIN" "node_id v = n"
  shows "fst (remember m n cleanup)"
    and "windows (snd (remember m n cleanup)) n =
         Some (v\<lparr>keep := Some True,
                 raw_title := (if cleanup
                               then Some (strip_markers (get_win_raw_text (v\<lparr>keep := Some True\<rparr>)))
                               else raw_title v)\<rparr>)"
  using assms
  by (simp_all add: remember_def Let_def put_val_window WIN_KEEP_def remove_unsaved_markers_Str
        del: remove_unsaved_markers.simps)

lemma mark_win_as_unsaved_window:
  assumes "windows m n = Some v" "n \<noteq> []" "ty v = IT_WIN" "node_id v = n"
  shows "fst (mark_win_as_unsaved m (Some v) adjust)"
    and "windows (snd (mark_win_as_unsaved m (Some v) adjust)) n =
         Some (v\<lparr>keep := Some False,
                 raw_title := (case raw_title v of
                                 None \<Rightarrow> None
                               | Some t \<Rightarrow> Some (if adjust then strip_markers t @ unsaved_suffix else t))\<rparr>)"
  using assms
  by (auto simp: mark_win_as_unsaved_def Let_def put_val_window WIN_NOKEEP_def
        remove_unsaved_markers_Str unsaved_suffix_def simp del: remove_unsaved_markers.simps
        split: option.splits)

lemma proper_title_no_run: "proper_title t \<Longrightarrow> re_match (strip_markers t) = None"
  by (simp add: proper_title_def strip_markers_no_run)

text \<open>On proper titles (a character that is not white space, and not as a whole a run of
  markers) the title after \<open>mark_win_as_unsaved\<close> ends with exactly one marker, and the
  new titles are proper again.\<close>

lemma proper_titles_keep_one_marker:
  assumes "proper_title t"
  shows "re_match (strip_markers t) = None"
    and "proper_title (strip_markers t)"
    and "proper_title (strip_markers t @ unsaved_suffix)"
  using assms proper_title_no_run proper_title_strip proper_title_suffix by blast+

lemma strip_markers_run: "match_groups t \<Longrightarrow> strip_markers t = t"
  using re_match_Some_0 [of t] by (simp add: strip_markers_def)

lemma match_groups_suffix: "match_groups t \<Longrightarrow> match_groups (t @ unsaved_suffix)"
  using marker_run_append [OF _ marker_run_suffix] by (simp add: match_groups_iff)

text \<open>
  C8. The claim: \<open>remember\<close> sets \<open>keep\<close> to true and strips any trailing \<open>(Unsaved)\<close>
  markers from the title; \<open>mark_win_as_unsaved\<close> sets \<open>keep\<close> to false and, when a custom
  title exists, leaves a title that ends with exactly one \<open>" (Unsaved)"\<close>, with no
  accumulation over repeated calls. The source misses it for a custom title that is a run
  of markers from its first character, such as \<open>" (Unsaved)"\<close>, which the empty custom
  title becomes after one \<open>mark_win_as_unsaved\<close>: \<open>remove_unsaved_markers\<close> returns such a
  string as it is (the test \<open>matches.index > 0\<close>), against its own description
  (``without the markers if any were present''). For every window item with such a title
  \<open>t\<close>, \<open>mark_win_as_unsaved\<close> stores \<open>t\<close> followed by one more marker, which is again
  such a title, and \<open>remember\<close> stores \<open>t\<close> with its markers.
\<close>

theorem C8_markers_accumulate:
  assumes "windows m n = Some v" and "n \<noteq> []" and "ty v = IT_WIN" and "node_id v = n"
    and "raw_title v = Some t" and "match_groups t"
  shows "fst (mark_win_as_unsaved m (Some v) True) \<and>
         windows (snd (mark_win_as_unsaved m (Some v) True)) n =
           Some (v\<lparr>keep := Some False, raw_title := Some (t @ '' (Unsaved)'')\<rparr>) \<and>
         match_groups (t @ '' (Unsaved)'') \<and>
         fst (remember m n True) \<and>
         windows (snd (remember m n True)) n = Some (v\<lparr>keep := Some True, raw_title := Some t\<rparr>)"
proof -
  have g: "get_win_raw_text (v\<lparr>keep := Some True\<rparr>) = t"
    using assms(5) by (simp add: get_win_raw_text_def)
  show ?thesis
    using remember_window [OF assms(1-4), of True]
      mark_win_as_unsaved_window [OF assms(1-4), of True]
      strip_markers_run [OF assms(6)] match_groups_suffix [OF assms(6)] assms(5)
    by (simp add: g unsaved_suffix_def)
qed

text \<open>The theorem at a window whose custom title is \<open>" (Unsaved)"\<close>: the title becomes
  \<open>" (Unsaved) (Unsaved)"\<close>.\<close>

theorem C8_witness:
  "fst (mark_win_as_unsaved (ex_with c8_bad) (Some c8_bad) True) \<and>
   windows (snd (mark_win_as_unsaved (ex_with c8_bad) (Some c8_bad) True)) ''w1'' =
     Some (c8_bad\<lparr>keep := Some False, raw_title := Some '' (Unsaved) (Unsaved)''\<rparr>) \<and>
   match_groups '' (Unsaved) (Unsaved)'' \<and>
   fst (remember (ex_with c8_bad) ''w1'' True) \<and>
   windows (snd (remember (ex_with c8_bad) ''w1'' True)) ''w1'' =
     Some (c8_bad\<lparr>keep := Some True, raw_title := Some '' (Unsaved)''\<rparr>)"
proof -
  have w: "windows (ex_with c8_bad) ''w1'' = Some c8_bad"
    by (simp add: ex_with_def put_val_def c8_bad_def ex_win_def ex_model_def)
  have t: "''w1'' \<noteq> []" "ty c8_bad = IT_WIN" "node_id c8_bad = ''w1''"
    "raw_title c8_bad = Some '' (Unsaved)''"
    by (simp_all add: c8_bad_def ex_win_def)
  have r: "match_groups '' (Unsaved)''" by code_simp
  show ?thesis
    using C8_markers_accumulate [OF w t r] by simp
qed

section \<open>Claim C6: redundant marking is refused\<close>

text \<open>
  C6. For every window item and every tab item (a reference that resolves to the record
  \<open>v\<close>; for \<open>markTabAsClosed\<close> the node is in the tree): \<open>markWinAsOpen\<close> and
  \<open>markTabAsOpen\<close> on an item that is already open (\<open>isOpen\<close> is true or the handle is
  present), and \<open>markWinAsClosed\<close> and \<open>markTabAsClosed\<close> on an item that is already
  closed, return false; the state after the call is the state before it with one
  informational message appended to the log (the stores and the tree, hence every field
  of the record and every tag of the node, are unchanged). With a falsy browser object or
  a falsy id of it the open operations return false before they look at the item, and
  print nothing.
\<close>

theorem C6_refused:
  "(vn_by_vorny m r (Some IT_WIN) = (Some v, n) \<and> (isOpen v \<or> win v \<noteq> None) \<longrightarrow>
      markWinAsOpen m r cwin =
        (False,
         case cwin of
           None \<Rightarrow> m
         | Some cw \<Rightarrow>
             if cw_id cw = 0 then m
             else m\<lparr>info_log := info_log m @
                      [(''Refusing to re-mark already-open window as open'', v)]\<rparr>)) \<and>
   (vn_by_vorny m r (Some IT_TAB) = (Some v, n) \<and> (isOpen v \<or> tab v \<noteq> None) \<longrightarrow>
      markTabAsOpen m r ctab =
        (False,
         case ctab of
           None \<Rightarrow> m
         | Some ct \<Rightarrow>
             if ct_id ct = 0 then m
             else m\<lparr>info_log := info_log m @
                      [(''Refusing to re-mark already-open tab as open'', v)]\<rparr>)) \<and>
   (vn_by_vorny m r (Some IT_WIN) = (Some v, n) \<and> (\<not> isOpen v \<or> win v = None) \<longrightarrow>
      markWinAsClosed m r =
        (False,
         m\<lparr>info_log := info_log m @
             [(''Refusing to re-mark already-closed window as closed'', v)]\<rparr>)) \<and>
   (vn_by_vorny m r (Some IT_TAB) = (Some v, n) \<and> get_node (treeobj m) n \<noteq> None \<and>
    (\<not> isOpen v \<or> tab v = None) \<longrightarrow>
      markTabAsClosed m r =
        (False,
         m\<lparr>info_log := info_log m @
             [(''Refusing to re-mark already-closed tab as closed'', v)]\<rparr>))"
proof (intro conjI impI)
  assume a: "vn_by_vorny m r (Some IT_WIN) = (Some v, n) \<and> (isOpen v \<or> win v \<noteq> None)"
  then show "markWinAsOpen m r cwin =
        (False,
         case cwin of
           None \<Rightarrow> m
         | Some cw \<Rightarrow>
             if cw_id cw = 0 then m
             else m\<lparr>info_log := info_log m @
                      [(''Refusing to re-mark already-open window as open'', v)]\<rparr>)"
    using vn_by_vorny_Some [of m r "Some IT_WIN" v n]
    by (auto simp: markWinAsOpen_def split: option.splits)
next
  assume a: "vn_by_vorny m r (Some IT_TAB) = (Some v, n) \<and> (isOpen v \<or> tab v \<noteq> None)"
  then show "markTabAsOpen m r ctab =
        (False,
         case ctab of
           None \<Rightarrow> m
         | Some ct \<Rightarrow>
             if ct_id ct = 0 then m
             else m\<lparr>info_log := info_log m @
                      [(''Refusing to re-mark already-open tab as open'', v)]\<rparr>)"
    using vn_by_vorny_Some [of m r "Some IT_TAB" v n]
    by (auto simp: markTabAsOpen_def split: option.splits)
next
  assume a: "vn_by_vorny m r (Some IT_WIN) = (Some v, n) \<and> (\<not> isOpen v \<or> win v = None)"
  then show "markWinAsClosed m r =
        (False,
         m\<lparr>info_log := info_log m @
             [(''Refusing to re-mark already-closed window as closed'', v)]\<rparr>)"
    using vn_by_vorny_Some [of m r "Some IT_WIN" v n]
    by (auto simp: markWinAsClosed_def)
next
  assume a: "vn_by_vorny m r (Some IT_TAB) = (Some v, n) \<and> get_node (treeobj m) n \<noteq> None \<and>
    (\<not> isOpen v \<or> tab v = None)"
  then show "markTabAsClosed m r =
        (False,
         m\<lparr>info_log := info_log m @
             [(''Refusing to re-mark already-closed tab as closed'', v)]\<rparr>)"
    using vn_by_vorny_Some [of m r "Some IT_TAB" v n]
    by (auto simp: markTabAsClosed_def)
qed


text \<open>The theorem at the window \<open>w1\<close> and the tab \<open>t1\<close> of the example, open for the open
  operations and closed for the close operations.\<close>

theorem C6_witness:
  "markWinAsOpen (ex_with ex_open_win) (NodeId ''w1'') (Some ex_cwin) =
     (False, (ex_with ex_open_win)
        \<lparr>info_log := [(''Refusing to re-mark already-open window as open'', ex_open_win)]\<rparr>) \<and>
   markTabAsOpen (ex_with ex_open_tab) (NodeId ''t1'') (Some ex_ctab) =
     (False, (ex_with ex_open_tab)
        \<lparr>info_log := [(''Refusing to re-mark already-open tab as open'', ex_open_tab)]\<rparr>) \<and>
   markWinAsClosed ex_model (NodeId ''w1'') =
     (False, ex_model
        \<lparr>info_log := [(''Refusing to re-mark already-closed window as closed'', ex_win ''w1'')]\<rparr>) \<and>
   markTabAsClosed ex_model (NodeId ''t1'') =
     (False, ex_model
        \<lparr>info_log := [(''Refusing to re-mark already-closed tab as closed'',
                        ex_tab ''t1'' ''http://x'')]\<rparr>)"
proof -
  have a: "vn_by_vorny (ex_with ex_open_win) (NodeId ''w1'') (Some IT_WIN) = (Some ex_open_win, ''w1'')
           \<and> (isOpen ex_open_win \<or> win ex_open_win \<noteq> None)"
    by (simp add: ex_with_window) (simp add: ex_open_win_def)
  have b: "vn_by_vorny (ex_with ex_open_tab) (NodeId ''t1'') (Some IT_TAB) = (Some ex_open_tab, ''t1'')
           \<and> (isOpen ex_open_tab \<or> tab ex_open_tab \<noteq> None)"
    by (simp add: ex_with_tab) (simp add: ex_open_tab_def tab_after_open_def)
  have c: "vn_by_vorny ex_model (NodeId ''w1'') (Some IT_WIN) = (Some (ex_win ''w1''), ''w1'')
           \<and> (\<not> isOpen (ex_win ''w1'') \<or> win (ex_win ''w1'') = None)"
    by (simp add: ex_model_def ex_win_def blank_def)
  have d: "vn_by_vorny ex_model (NodeId ''t1'') (Some IT_TAB) =
             (Some (ex_tab ''t1'' ''http://x''), ''t1'')
           \<and> get_node (treeobj ex_model) ''t1'' \<noteq> None
           \<and> (\<not> isOpen (ex_tab ''t1'' ''http://x'') \<or> tab (ex_tab ''t1'' ''http://x'') = None)"
    by (simp add: ex_model_def ex_tab_def blank_def get_node_def ex_tree_def)
  have e: "cw_id ex_cwin \<noteq> 0" "ct_id ex_ctab \<noteq> 0" "info_log ex_model = []"
    "info_log (ex_with ex_open_win) = []" "info_log (ex_with ex_open_tab) = []"
    by (simp_all add: ex_cwin_def ex_ctab_def ex_model_def ex_with_window ex_with_tab)
  from C6_refused [of "ex_with ex_open_win" "NodeId ''w1''" ex_open_win "''w1''" "Some ex_cwin"] a e
  have 1: "markWinAsOpen (ex_with ex_open_win) (NodeId ''w1'') (Some ex_cwin) =
     (False, (ex_with ex_open_win)
        \<lparr>info_log := [(''Refusing to re-mark already-open window as open'', ex_open_win)]\<rparr>)"
    by simp
  from C6_refused [of "ex_with ex_open_tab" "NodeId ''t1''" ex_open_tab "''t1''" _ "Some ex_ctab"] b e
  have 2: "markTabAsOpen (ex_with ex_open_tab) (NodeId ''t1'') (Some ex_ctab) =
     (False, (ex_with ex_open_tab)
        \<lparr>info_log := [(''Refusing to re-mark already-open tab as open'', ex_open_tab)]\<rparr>)"
    by simp
  from C6_refused [of ex_model "NodeId ''w1''" "ex_win ''w1''" "''w1''"] c e
  have 3: "markWinAsClosed ex_model (NodeId ''w1'') =
     (False, ex_model
        \<lparr>info_log := [(''Refusing to re-mark already-closed window as closed'', ex_win ''w1'')]\<rparr>)"
    by simp
  from C6_refused [of ex_model "NodeId ''t1''" "ex_tab ''t1'' ''http://x''" "''t1''"] d e
  have 4: "markTabAsClosed ex_model (NodeId ''t1'') =
     (False, ex_model
        \<lparr>info_log := [(''Refusing to re-mark already-closed tab as closed'',
                        ex_tab ''t1'' ''http://x'')]\<rparr>)"
    by simp
  from 1 2 3 4 show ?thesis by blast
qed

section \<open>Claim C7: \<open>markTabAsClosed\<close>\<close>

lemma markTabAsClosed_open:
  assumes "vn_by_vorny m r (Some IT_TAB) = (Some v, n)" "tabs m n = Some v" "ty v = IT_TAB"
    "node_id v = n" "get_node (treeobj m) n \<noteq> None" "isOpen v" "tab v \<noteq> None"
  shows "fst (markTabAsClosed m r)"
    and "tabs (snd (markTabAsClosed m r)) = (tabs m)(n \<mapsto> tab_after_close v)"
    and "windows (snd (markTabAsClosed m r)) = windows m"
  using assms vn_by_vorny_Some [OF assms(1)]
  by (auto simp: markTabAsClosed_def Let_def change_key_tab_id_def put_val_tab tab_after_close_def)

lemma markTabAsOpen_closed:
  assumes "vn_by_vorny m r (Some IT_TAB) = (Some v, n)" "tabs m n = Some v" "ty v = IT_TAB"
    "node_id v = n" "get_node (treeobj m) n \<noteq> None" "\<not> isOpen v" "tab v = None" "ct_id ct \<noteq> 0"
  shows "fst (markTabAsOpen m r (Some ct))"
    and "tabs (snd (markTabAsOpen m r (Some ct))) = (tabs m)(n \<mapsto> tab_after_open v ct)"
    and "windows (snd (markTabAsOpen m r (Some ct))) = windows m"
  using assms vn_by_vorny_Some [OF assms(1)]
  by (auto simp: markTabAsOpen_def Let_def change_key_tab_id_def put_val_tab tab_after_open_def
        get_node_def split: option.splits)

lemma markTabAsOpen_node:
  "(treeobj (snd (markTabAsOpen m r ctab)) k = None) = (treeobj m k = None)"
  by (simp add: markTabAsOpen_def Let_def change_key_tab_id_def split: option.splits prod.splits)


text \<open>
  C7. For every open tab item (a reference that resolves to the record \<open>v\<close> that the store
  holds, with its node in the tree; open: \<open>isOpen\<close> is true and the handle is present),
  \<open>markTabAsClosed\<close> returns true and the record becomes \<open>tab_after_close v\<close>: \<open>isOpen\<close>
  is false, \<open>tab_id\<close>, \<open>win_id\<close> and \<open>index\<close> are \<open>NONE\<close>, the handle is absent, and
  every other field, \<open>raw_url\<close>, \<open>raw_title\<close> and \<open>raw_favicon_url\<close> among them, is as it
  was. Hence \<open>markTabAsOpen\<close> with the browser tab \<open>ct\<close> on a closed tab, followed by
  \<open>markTabAsClosed\<close> on the same tab (\<open>r2\<close> refers to the record after the first call),
  gives a closed record with the address, title and icon address of \<open>ct\<close>, as they were
  after \<open>markTabAsOpen\<close>.
\<close>

theorem C7_markTabAsClosed:
  "(vn_by_vorny m r (Some IT_TAB) = (Some v, n) \<and> tabs m n = Some v \<and> ty v = IT_TAB \<and>
    node_id v = n \<and> get_node (treeobj m) n \<noteq> None \<and> isOpen v \<and> tab v \<noteq> None \<longrightarrow>
      fst (markTabAsClosed m r) \<and>
      tabs (snd (markTabAsClosed m r)) n = Some (tab_after_close v)) \<and>
   (vn_by_vorny m r (Some IT_TAB) = (Some v, n) \<and> tabs m n = Some v \<and> ty v = IT_TAB \<and>
    node_id v = n \<and> get_node (treeobj m) n \<noteq> None \<and> \<not> isOpen v \<and> tab v = None \<and>
    ct_id ct \<noteq> 0 \<and>
    vn_by_vorny (snd (markTabAsOpen m r (Some ct))) r2 (Some IT_TAB) =
      (Some (tab_after_open v ct), n) \<longrightarrow>
      fst (markTabAsOpen m r (Some ct)) \<and>
      tabs (snd (markTabAsOpen m r (Some ct))) n = Some (tab_after_open v ct) \<and>
      fst (markTabAsClosed (snd (markTabAsOpen m r (Some ct))) r2) \<and>
      tabs (snd (markTabAsClosed (snd (markTabAsOpen m r (Some ct))) r2)) n =
        Some (tab_after_close (tab_after_open v ct))) \<and>
   (isOpen (tab_after_close v) = False \<and> tab_id (tab_after_close v) = NONE \<and>
    win_id (tab_after_close v) = NONE \<and> index (tab_after_close v) = NONE \<and>
    tab (tab_after_close v) = None \<and> raw_url (tab_after_close v) = raw_url v \<and>
    raw_title (tab_after_close v) = raw_title v \<and>
    raw_favicon_url (tab_after_close v) = raw_favicon_url v \<and>
    tab_after_close v =
      v\<lparr>tab_id := NONE, win_id := NONE, index := NONE, tab := None, isOpen := False\<rparr>)"
proof (intro conjI impI)
  assume a: "vn_by_vorny m r (Some IT_TAB) = (Some v, n) \<and> tabs m n = Some v \<and> ty v = IT_TAB \<and>
    node_id v = n \<and> get_node (treeobj m) n \<noteq> None \<and> isOpen v \<and> tab v \<noteq> None"
  then show "fst (markTabAsClosed m r)"
    using markTabAsClosed_open(1) [of m r v n] by blast
  from a show "tabs (snd (markTabAsClosed m r)) n = Some (tab_after_close v)"
    using markTabAsClosed_open(2) [of m r v n] by simp
next
  assume a: "vn_by_vorny m r (Some IT_TAB) = (Some v, n) \<and> tabs m n = Some v \<and> ty v = IT_TAB \<and>
    node_id v = n \<and> get_node (treeobj m) n \<noteq> None \<and> \<not> isOpen v \<and> tab v = None \<and>
    ct_id ct \<noteq> 0 \<and>
    vn_by_vorny (snd (markTabAsOpen m r (Some ct))) r2 (Some IT_TAB) =
      (Some (tab_after_open v ct), n)"
  define m1 where "m1 = snd (markTabAsOpen m r (Some ct))"
  from a have o: "fst (markTabAsOpen m r (Some ct))"
    "tabs m1 = (tabs m)(n \<mapsto> tab_after_open v ct)"
    unfolding m1_def using markTabAsOpen_closed [of m r v n ct] by blast+
  have nd: "get_node (treeobj m1) n \<noteq> None"
    using a unfolding m1_def get_node_def by (simp add: markTabAsOpen_node)
  have v1: "ty (tab_after_open v ct) = IT_TAB" "node_id (tab_after_open v ct) = n"
    "isOpen (tab_after_open v ct)" "tab (tab_after_open v ct) \<noteq> None"
    using a by (simp_all add: tab_after_open_def)
  have r2: "vn_by_vorny m1 r2 (Some IT_TAB) = (Some (tab_after_open v ct), n)"
    using a unfolding m1_def by blast
  have t1: "tabs m1 n = Some (tab_after_open v ct)" using o(2) by simp
  note c = markTabAsClosed_open [OF r2 t1 v1(1,2) nd v1(3,4)]
  show "fst (markTabAsOpen m r (Some ct))" by (rule o(1))
  show "tabs (snd (markTabAsOpen m r (Some ct))) n = Some (tab_after_open v ct)"
    using t1 unfolding m1_def .
  show "fst (markTabAsClosed (snd (markTabAsOpen m r (Some ct))) r2)"
    using c(1) unfolding m1_def .
  show "tabs (snd (markTabAsClosed (snd (markTabAsOpen m r (Some ct))) r2)) n =
        Some (tab_after_close (tab_after_open v ct))"
    using c(2) unfolding m1_def by simp
qed (simp_all add: tab_after_close_def)

text \<open>The theorem at the tab \<open>t1\<close> of the example: closing it when it is open, and opening
  it with \<open>ex_ctab\<close> and closing it again.\<close>

theorem C7_witness:
  "fst (markTabAsClosed (ex_with ex_open_tab) (NodeId ''t1'')) \<and>
   tabs (snd (markTabAsClosed (ex_with ex_open_tab) (NodeId ''t1''))) ''t1'' =
     Some (tab_after_close ex_open_tab) \<and>
   fst (markTabAsOpen ex_model (NodeId ''t1'') (Some ex_ctab)) \<and>
   tabs (snd (markTabAsOpen ex_model (NodeId ''t1'') (Some ex_ctab))) ''t1'' = Some ex_open_tab \<and>
   fst (markTabAsClosed (snd (markTabAsOpen ex_model (NodeId ''t1'') (Some ex_ctab)))
          (NodeId ''t1'')) \<and>
   tabs (snd (markTabAsClosed (snd (markTabAsOpen ex_model (NodeId ''t1'') (Some ex_ctab)))
                (NodeId ''t1''))) ''t1'' =
     Some (tab_after_close ex_open_tab) \<and>
   raw_url (tab_after_close ex_open_tab) = Some ''http://z'' \<and>
   raw_title (tab_after_close ex_open_tab) = Some ''Z'' \<and>
   tab_id (tab_after_close ex_open_tab) = - 1 \<and>
   isOpen (tab_after_close ex_open_tab) = False"
proof -
  have a: "vn_by_vorny (ex_with ex_open_tab) (NodeId ''t1'') (Some IT_TAB) = (Some ex_open_tab, ''t1'')
      \<and> tabs (ex_with ex_open_tab) ''t1'' = Some ex_open_tab \<and> ty ex_open_tab = IT_TAB
      \<and> node_id ex_open_tab = ''t1'' \<and> get_node (treeobj (ex_with ex_open_tab)) ''t1'' \<noteq> None
      \<and> isOpen ex_open_tab \<and> tab ex_open_tab \<noteq> None"
    by (simp add: ex_with_tab) (simp add: ex_open_tab_def tab_after_open_def ex_model_def
          get_node_def ex_tree_def)
  have t: "tabs ex_model ''t1'' = Some (ex_tab ''t1'' ''http://x'')"
    by (simp add: ex_model_def)
  have b0: "vn_by_vorny ex_model (NodeId ''t1'') (Some IT_TAB) =
        (Some (ex_tab ''t1'' ''http://x''), ''t1'')"
    "get_node (treeobj ex_model) ''t1'' \<noteq> None"
    "\<not> isOpen (ex_tab ''t1'' ''http://x'')" "tab (ex_tab ''t1'' ''http://x'') = None"
    "ct_id ex_ctab \<noteq> 0"
    by (simp_all add: t) (simp_all add: ex_model_def get_node_def ex_tree_def ex_tab_def
          blank_def ex_ctab_def)
  have b1: "tabs (snd (markTabAsOpen ex_model (NodeId ''t1'') (Some ex_ctab))) ''t1'' =
      Some ex_open_tab"
    using markTabAsOpen_closed(2) [OF b0(1) t _ _ b0(2,3,4,5)]
    by (simp add: ex_open_tab_def)
  have b: "vn_by_vorny ex_model (NodeId ''t1'') (Some IT_TAB) =
        (Some (ex_tab ''t1'' ''http://x''), ''t1'') \<and>
      tabs ex_model ''t1'' = Some (ex_tab ''t1'' ''http://x'') \<and>
      ty (ex_tab ''t1'' ''http://x'') = IT_TAB \<and> node_id (ex_tab ''t1'' ''http://x'') = ''t1'' \<and>
      get_node (treeobj ex_model) ''t1'' \<noteq> None \<and> \<not> isOpen (ex_tab ''t1'' ''http://x'') \<and>
      tab (ex_tab ''t1'' ''http://x'') = None \<and> ct_id ex_ctab \<noteq> 0 \<and>
      vn_by_vorny (snd (markTabAsOpen ex_model (NodeId ''t1'') (Some ex_ctab))) (NodeId ''t1'')
        (Some IT_TAB) = (Some (tab_after_open (ex_tab ''t1'' ''http://x'') ex_ctab), ''t1'')"
    using b0 t b1 by (simp add: ex_open_tab_def)
  note th1 = C7_markTabAsClosed [of "ex_with ex_open_tab" "NodeId ''t1''" ex_open_tab "''t1''"]
  note th2 = C7_markTabAsClosed [of ex_model "NodeId ''t1''" "ex_tab ''t1'' ''http://x''" "''t1''"
      ex_ctab "NodeId ''t1''"]
  have f: "raw_url (tab_after_close ex_open_tab) = Some ''http://z''"
    "raw_title (tab_after_close ex_open_tab) = Some ''Z''"
    "tab_id (tab_after_close ex_open_tab) = - 1"
    "isOpen (tab_after_close ex_open_tab) = False"
    using th1 by (simp_all add: ex_open_tab_def tab_after_open_def ex_ctab_def NONE_def)
  from th1 a have 1: "fst (markTabAsClosed (ex_with ex_open_tab) (NodeId ''t1''))"
    "tabs (snd (markTabAsClosed (ex_with ex_open_tab) (NodeId ''t1''))) ''t1'' =
       Some (tab_after_close ex_open_tab)"
    by blast+
  from th2 b have 2: "fst (markTabAsOpen ex_model (NodeId ''t1'') (Some ex_ctab))"
    "fst (markTabAsClosed (snd (markTabAsOpen ex_model (NodeId ''t1'') (Some ex_ctab)))
          (NodeId ''t1''))"
    "tabs (snd (markTabAsClosed (snd (markTabAsOpen ex_model (NodeId ''t1'') (Some ex_ctab)))
                (NodeId ''t1''))) ''t1'' =
     Some (tab_after_close (tab_after_open (ex_tab ''t1'' ''http://x'') ex_ctab))"
    by blast+
  show ?thesis
    using 1 2 b1 f by (simp add: ex_open_tab_def)
qed

section \<open>Tab operations and the parent's hash\<close>

lemma eraseTab_windows:
  "windows (snd (eraseTab m r)) = windows m"
  "windows_by_hash (snd (eraseTab m r)) = windows_by_hash m"
  by (auto simp: eraseTab_def tabs_remove_value_def Let_def split: option.splits prod.splits)

lemma put_val_tab_windows:
  "ty v = IT_TAB \<Longrightarrow> windows (put_val m v) = windows m"
  by (simp add: put_val_def)

lemma markTabAsOpen_windows:
  assumes "vn_by_vorny m r (Some IT_TAB) = (Some v, n)" "ty v = IT_TAB"
  shows "windows (snd (markTabAsOpen m r ctab)) = windows m"
    and "windows_by_hash (snd (markTabAsOpen m r ctab)) = windows_by_hash m"
  using assms
  by (auto simp: markTabAsOpen_def Let_def change_key_tab_id_def put_val_tab_windows
        split: option.splits)

lemma delete_node_gone:
  "t n = Some x \<Longrightarrow> parent x = Some p \<Longrightarrow> delete_node t n n = None"
  by (simp add: delete_node_def Let_def)

lemma eraseTab_tab:
  assumes "vn_by_vorny m r (Some IT_TAB) = (Some v, n)" "tabs m n = Some v" "ty v = IT_TAB"
    "node_id v = n" "get_node (treeobj m) n = Some x" "parent x = Some p"
  shows "fst (eraseTab m r)"
    and "tabs (snd (eraseTab m r)) n = None"
    and "treeobj (snd (eraseTab m r)) n = None"
  using assms vn_by_vorny_Some [OF assms(1)]
  by (auto simp: eraseTab_def tabs_remove_value_def Let_def get_node_def delete_node_gone)

text \<open>
  C10. For a reference that resolves to a tab item, \<^verbatim>\<open>eraseTab\<close> and
  \<^verbatim>\<open>markTabAsOpen\<close> write no window record and no entry of the hash index:
  the window store after the call is the one before it, so the
  \<^verbatim>\<open>ordered_url_hash\<close> of every window item, the tab's parent among them, is
  unchanged. And they do change what the hash is computed from: a successful
  \<^verbatim>\<open>eraseTab\<close> removes the tab's record and its node, and a successful
  \<^verbatim>\<open>markTabAsOpen\<close> on a closed tab stores the URL of the browser tab.
\<close>

theorem C10_parent_hash_untouched:
  "(vn_by_vorny m r (Some IT_TAB) = (Some v, n) \<and> ty v = IT_TAB \<longrightarrow>
      windows (snd (eraseTab m r)) = windows m \<and>
      windows_by_hash (snd (eraseTab m r)) = windows_by_hash m \<and>
      (\<forall>w. hash_of (snd (eraseTab m r)) w = hash_of m w) \<and>
      windows (snd (markTabAsOpen m r ctab)) = windows m \<and>
      windows_by_hash (snd (markTabAsOpen m r ctab)) = windows_by_hash m \<and>
      (\<forall>w. hash_of (snd (markTabAsOpen m r ctab)) w = hash_of m w)) \<and>
   (vn_by_vorny m r (Some IT_TAB) = (Some v, n) \<and> ty v = IT_TAB \<and> tabs m n = Some v \<and>
    node_id v = n \<and> get_node (treeobj m) n = Some x \<and> parent x = Some p \<longrightarrow>
      fst (eraseTab m r) \<and> tabs (snd (eraseTab m r)) n = None \<and>
      treeobj (snd (eraseTab m r)) n = None) \<and>
   (vn_by_vorny m r (Some IT_TAB) = (Some v, n) \<and> ty v = IT_TAB \<and> tabs m n = Some v \<and>
    node_id v = n \<and> get_node (treeobj m) n \<noteq> None \<and> \<not> isOpen v \<and> tab v = None \<and>
    ct_id ct \<noteq> 0 \<longrightarrow>
      fst (markTabAsOpen m r (Some ct)) \<and>
      map_option raw_url (tabs (snd (markTabAsOpen m r (Some ct))) n) = Some (ct_url ct))"
proof (intro conjI impI allI)
  assume a: "vn_by_vorny m r (Some IT_TAB) = (Some v, n) \<and> ty v = IT_TAB \<and> tabs m n = Some v \<and>
    node_id v = n \<and> get_node (treeobj m) n \<noteq> None \<and> \<not> isOpen v \<and> tab v = None \<and>
    ct_id ct \<noteq> 0"
  then show "fst (markTabAsOpen m r (Some ct))"
    using markTabAsOpen_closed(1) [of m r v n ct] by blast
  from a show "map_option raw_url (tabs (snd (markTabAsOpen m r (Some ct))) n) = Some (ct_url ct)"
    using markTabAsOpen_closed(2) [of m r v n ct] by (simp add: tab_after_open_def)
qed (auto simp: eraseTab_windows markTabAsOpen_windows hash_of_def eraseTab_tab)

theorem C10_witness:
  "hash_of (snd (eraseTab ex_model (NodeId ''t1''))) ''w1'' = hash_of ex_model ''w1'' \<and>
   hash_of (snd (markTabAsOpen ex_model (NodeId ''t1'') (Some ex_ctab))) ''w1'' =
     hash_of ex_model ''w1'' \<and>
   windows (snd (eraseTab ex_model (NodeId ''t1''))) = windows ex_model \<and>
   windows (snd (markTabAsOpen ex_model (NodeId ''t1'') (Some ex_ctab))) = windows ex_model \<and>
   fst (eraseTab ex_model (NodeId ''t1'')) \<and>
   tabs (snd (eraseTab ex_model (NodeId ''t1''))) ''t1'' = None \<and>
   treeobj (snd (eraseTab ex_model (NodeId ''t1''))) ''t1'' = None \<and>
   fst (markTabAsOpen ex_model (NodeId ''t1'') (Some ex_ctab)) \<and>
   map_option raw_url (tabs (snd (markTabAsOpen ex_model (NodeId ''t1'') (Some ex_ctab))) ''t1'') =
     Some (Some ''http://z'')"
proof -
  have t: "tabs ex_model ''t1'' = Some (ex_tab ''t1'' ''http://x'')"
    by (simp add: ex_model_def)
  have a: "vn_by_vorny ex_model (NodeId ''t1'') (Some IT_TAB) =
        (Some (ex_tab ''t1'' ''http://x''), ''t1'')"
    "ty (ex_tab ''t1'' ''http://x'') = IT_TAB" "node_id (ex_tab ''t1'' ''http://x'') = ''t1''"
    "get_node (treeobj ex_model) ''t1'' = Some (ex_node (Some ''w1'') [''w1'', ''#''] [] ''tab'')"
    "parent (ex_node (Some ''w1'') [''w1'', ''#''] [] ''tab'') = Some ''w1''"
    "\<not> isOpen (ex_tab ''t1'' ''http://x'')" "tab (ex_tab ''t1'' ''http://x'') = None"
    "ct_id ex_ctab \<noteq> 0" "ct_url ex_ctab = Some ''http://z''"
    by (simp_all add: t) (simp_all add: ex_model_def get_node_def ex_tree_def ex_tab_def
          blank_def ex_ctab_def ex_node_def)
  note th = C10_parent_hash_untouched [of ex_model "NodeId ''t1''" "ex_tab ''t1'' ''http://x''"
      "''t1''" "Some ex_ctab" "ex_node (Some ''w1'') [''w1'', ''#''] [] ''tab''" "''w1''" ex_ctab]
  show ?thesis
    using th a t by simp
qed

section \<open>Claim C1: one owner for a hash\<close>

text \<open>
  C1. Let the store be consistent, let \<open>r\<close> refer to a window item with node id \<open>n\<close>, and
  let \<open>updateOrderedURLHash\<close> find an address for every child, with hash \<open>h\<close>. If the
  store gives this window as the owner of \<open>h\<close>, the call returns true and changes nothing.
  If it gives a different window, the call returns false, this window's hash becomes null
  and the owner keeps \<open>h\<close>. If it gives none, the call returns true and this window holds
  \<open>h\<close>. In each case the store stays consistent, so at most one window holds a given hash.
  And for a second window \<open>n2\<close> whose children give the same addresses: when no third
  window owns \<open>h\<close> beforehand, after the call on \<open>n\<close> and then on \<open>n2\<close> exactly one of the
  two holds \<open>h\<close> and the other holds null.
\<close>

theorem C1_update_window_hash:
  assumes "store_ok m" and "window_ref m r n v nd"
    and "child_urls_loop m (children nd) [] = Some us"
    and "h = orderedHashOfStrings (Array us)"
  shows
   "(by_ordered_url_hash m h = Some v \<longrightarrow>
       updateOrderedURLHash m r = (True, m) \<and> hash_of m n = Some h) \<and>
    (\<forall>u. by_ordered_url_hash m h = Some u \<and> node_id u \<noteq> n \<longrightarrow>
       \<not> fst (updateOrderedURLHash m r) \<and>
       hash_of (snd (updateOrderedURLHash m r)) n = None \<and>
       hash_of (snd (updateOrderedURLHash m r)) (node_id u) = Some h) \<and>
    (by_ordered_url_hash m h = None \<longrightarrow>
       fst (updateOrderedURLHash m r) \<and>
       hash_of (snd (updateOrderedURLHash m r)) n = Some h) \<and>
    store_ok (snd (updateOrderedURLHash m r)) \<and>
    (\<forall>a b g. hash_of (snd (updateOrderedURLHash m r)) a = Some g \<and>
             hash_of (snd (updateOrderedURLHash m r)) b = Some g \<longrightarrow> a = b) \<and>
    (\<forall>r2 n2 v2 nd2.
       window_ref m r2 n2 v2 nd2 \<and> n2 \<noteq> n \<and>
       child_urls_loop m (children nd2) [] = Some us \<and>
       (\<forall>u. by_ordered_url_hash m h = Some u \<longrightarrow> node_id u = n \<or> node_id u = n2) \<longrightarrow>
       (hash_of (snd (updateOrderedURLHash (snd (updateOrderedURLHash m r)) r2)) n = Some h \<and>
        hash_of (snd (updateOrderedURLHash (snd (updateOrderedURLHash m r)) r2)) n2 = None) \<or>
       (hash_of (snd (updateOrderedURLHash (snd (updateOrderedURLHash m r)) r2)) n = None \<and>
        hash_of (snd (updateOrderedURLHash (snd (updateOrderedURLHash m r)) r2)) n2 = Some h))"
proof -
  have w: "windows m n = Some v" using assms(2) by (simp add: window_ref_def)
  note wv = store_ok_window [OF assms(1) w]
  note s = update_summary [OF assms]
  note bi = by_hash_index [OF assms(1), of h]
  have 1: "updateOrderedURLHash m r = (True, m) \<and> hash_of m n = Some h"
    if "by_ordered_url_hash m h = Some v"
  proof -
    have i: "windows_by_hash m h = Some n" using bi(2) [OF that] wv by simp
    then have "ordered_url_hash v = Some h" using store_ok_holds [OF assms(1) w, of h] by simp
    then show ?thesis
      using update_same [OF assms(1-3)] i assms(4) w by (simp add: hash_of_def)
  qed
  have 2: "\<not> fst (updateOrderedURLHash m r) \<and>
       hash_of (snd (updateOrderedURLHash m r)) n = None \<and>
       hash_of (snd (updateOrderedURLHash m r)) (node_id u) = Some h"
    if "by_ordered_url_hash m h = Some u" "node_id u \<noteq> n" for u
  proof -
    have i: "windows_by_hash m h = Some (node_id u)" using bi(2) [OF that(1)] .
    have "windows m (node_id u) = Some u"
      using that(1) i by (simp add: by_ordered_url_hash_def)
    moreover have "ordered_url_hash u = Some h"
      using store_ok_index [OF assms(1) i] calculation by simp
    ultimately have "hash_of (snd (updateOrderedURLHash m r)) (node_id u) = Some h"
      using s(4) [OF that(2)] by (simp add: hash_of_def)
    then show ?thesis using s(6,7) i that(2) by simp
  qed
  have 3: "fst (updateOrderedURLHash m r) \<and> hash_of (snd (updateOrderedURLHash m r)) n = Some h"
    if "by_ordered_url_hash m h = None"
    using s(6,7) bi(1) that by simp
  have 5: "a = b" if "hash_of (snd (updateOrderedURLHash m r)) a = Some g"
      "hash_of (snd (updateOrderedURLHash m r)) b = Some g" for a b g
    using store_ok_unique [OF s(1) that] .
  have 6: "(hash_of (snd (updateOrderedURLHash (snd (updateOrderedURLHash m r)) r2)) n = Some h \<and>
        hash_of (snd (updateOrderedURLHash (snd (updateOrderedURLHash m r)) r2)) n2 = None) \<or>
       (hash_of (snd (updateOrderedURLHash (snd (updateOrderedURLHash m r)) r2)) n = None \<and>
        hash_of (snd (updateOrderedURLHash (snd (updateOrderedURLHash m r)) r2)) n2 = Some h)"
    if r2: "window_ref m r2 n2 v2 nd2" and ne: "n2 \<noteq> n"
      and us2: "child_urls_loop m (children nd2) [] = Some us"
      and third: "\<And>u. by_ordered_url_hash m h = Some u \<Longrightarrow> node_id u = n \<or> node_id u = n2"
    for r2 n2 v2 nd2
  proof -
    have "windows_by_hash m h = None \<or> windows_by_hash m h = Some n \<or>
          windows_by_hash m h = Some n2"
    proof (cases "by_ordered_url_hash m h")
      case None
      then show ?thesis using bi(1) by simp
    next
      case (Some u)
      then show ?thesis using bi(2) [OF Some] third [OF Some] by auto
    qed
    then show ?thesis
      using two_windows [OF assms(1,2) r2 _ assms(3) us2 assms(4) _ refl refl] ne by simp
  qed
  show ?thesis using 1 2 3 5 6 s(1) by blast
qed

theorem C1_witness:
  "fst (updateOrderedURLHash ex_model (NodeId ''w1'')) \<and>
   hash_of (snd (updateOrderedURLHash ex_model (NodeId ''w1''))) ''w1'' = Some ex_hash \<and>
   store_ok (snd (updateOrderedURLHash ex_model (NodeId ''w1''))) \<and>
   ((hash_of (snd (updateOrderedURLHash (snd (updateOrderedURLHash ex_model (NodeId ''w1'')))
                 (NodeId ''w2''))) ''w1'' = Some ex_hash \<and>
     hash_of (snd (updateOrderedURLHash (snd (updateOrderedURLHash ex_model (NodeId ''w1'')))
                 (NodeId ''w2''))) ''w2'' = None) \<or>
    (hash_of (snd (updateOrderedURLHash (snd (updateOrderedURLHash ex_model (NodeId ''w1'')))
                 (NodeId ''w2''))) ''w1'' = None \<and>
     hash_of (snd (updateOrderedURLHash (snd (updateOrderedURLHash ex_model (NodeId ''w1'')))
                 (NodeId ''w2''))) ''w2'' = Some ex_hash))"
proof -
  have n: "by_ordered_url_hash ex_model ex_hash = None"
    by (simp add: by_ordered_url_hash_def ex_model_def)
  have c: "child_urls_loop ex_model
             (children (ex_node (Some ''#'') [''#''] [''t1'', ''t2''] ''win'')) [] =
           Some [''http://x'', ''http://y'']"
    "child_urls_loop ex_model
             (children (ex_node (Some ''#'') [''#''] [''t3'', ''t4''] ''win'')) [] =
           Some [''http://x'', ''http://y'']"
    by (simp_all del: child_urls_loop.simps add: ex_node_def ex_child_urls)
  note th = C1_update_window_hash [of ex_model "NodeId ''w1''" "''w1''" "ex_win ''w1''"
      "ex_node (Some ''#'') [''#''] [''t1'', ''t2''] ''win''" "[''http://x'', ''http://y'']"
      ex_hash, OF store_ok_ex ex_window_ref(1) c(1) ex_hash_def]
  from th n have a: "fst (updateOrderedURLHash ex_model (NodeId ''w1'')) \<and>
      hash_of (snd (updateOrderedURLHash ex_model (NodeId ''w1''))) ''w1'' = Some ex_hash"
    by blast
  from th have b: "store_ok (snd (updateOrderedURLHash ex_model (NodeId ''w1'')))"
    by blast
  from th have "window_ref ex_model (NodeId ''w2'') ''w2'' (ex_win ''w2'')
        (ex_node (Some ''#'') [''#''] [''t3'', ''t4''] ''win'') \<and> ''w2'' \<noteq> ''w1'' \<and>
      child_urls_loop ex_model
        (children (ex_node (Some ''#'') [''#''] [''t3'', ''t4''] ''win'')) [] =
        Some [''http://x'', ''http://y''] \<and>
      (\<forall>u. by_ordered_url_hash ex_model ex_hash = Some u \<longrightarrow>
           node_id u = ''w1'' \<or> node_id u = ''w2'') \<longrightarrow>
      (hash_of (snd (updateOrderedURLHash (snd (updateOrderedURLHash ex_model (NodeId ''w1'')))
                 (NodeId ''w2''))) ''w1'' = Some ex_hash \<and>
       hash_of (snd (updateOrderedURLHash (snd (updateOrderedURLHash ex_model (NodeId ''w1'')))
                 (NodeId ''w2''))) ''w2'' = None) \<or>
      (hash_of (snd (updateOrderedURLHash (snd (updateOrderedURLHash ex_model (NodeId ''w1'')))
                 (NodeId ''w2''))) ''w1'' = None \<and>
       hash_of (snd (updateOrderedURLHash (snd (updateOrderedURLHash ex_model (NodeId ''w1'')))
                 (NodeId ''w2''))) ''w2'' = Some ex_hash)"
    by blast
  then show ?thesis using a b ex_window_ref(2) c(2) n by simp
qed

text \<open>With a third window that owns the hash, neither of the two windows holds it.\<close>

lemmas ex3_defs = ex3_model_def ex_model_def ex3_tree_def ex_tree_def ex_node_def ex_win_def
  ex_tab_def blank_def

theorem C1_counterexample:
  "child_urls_loop ex3_model [''t1'', ''t2''] [] = child_urls_loop ex3_model [''t3'', ''t4''] [] \<and>
   hash_of c1_m3 ''w1'' = None \<and> hash_of c1_m3 ''w2'' = None \<and>
   hash_of c1_m3 ''w3'' = Some ex_hash"
  by (simp add: c1_m3_def c1_m2_def c1_m1_def updateOrderedURLHash_def get_node_def
        tabs_by_node_id_raw_url_def hash_of_def same_object_def
        by_ordered_url_hash_def change_key_ordered_url_hash_def put_val_def ex_hash_def
        Let_def ex3_defs)

section \<open>Claim C4: no stale hash\<close>

text \<open>
  C4. Let \<open>r\<close> refer to a window item with node id \<open>n\<close>. If a child of its node has no
  record in the tab store, or a record whose \<open>raw_url\<close> is null or empty,
  \<open>updateOrderedURLHash\<close> returns false and has set the window's \<open>ordered_url_hash\<close> to
  null. And whenever it returns false on a window item, the window's \<open>ordered_url_hash\<close>
  is null afterwards.
\<close>

theorem C4_no_stale_hash:
  assumes "window_ref m r n v nd" and "ty v = IT_WIN" and "node_id v = n"
  shows
   "((\<exists>c \<in> set (children nd).
        tabs_by_node_id_raw_url m c = None \<or> tabs_by_node_id_raw_url m c = Some []) \<longrightarrow>
       \<not> fst (updateOrderedURLHash m r) \<and>
       windows (snd (updateOrderedURLHash m r)) n = Some (v\<lparr>ordered_url_hash := None\<rparr>) \<and>
       hash_of (snd (updateOrderedURLHash m r)) n = None) \<and>
    (\<not> fst (updateOrderedURLHash m r) \<longrightarrow>
       hash_of (snd (updateOrderedURLHash m r)) n = None)"
proof -
  have w: "windows m n = Some v" using assms(1) by (simp add: window_ref_def)
  note ck = change_key_self [OF w assms(2,3), of None]
  have 1: "\<not> fst (updateOrderedURLHash m r) \<and>
       windows (snd (updateOrderedURLHash m r)) n = Some (v\<lparr>ordered_url_hash := None\<rparr>) \<and>
       hash_of (snd (updateOrderedURLHash m r)) n = None"
    if "\<exists>c \<in> set (children nd).
        tabs_by_node_id_raw_url m c = None \<or> tabs_by_node_id_raw_url m c = Some []"
  proof -
    have "child_urls_loop m (children nd) [] = None"
      using that by (simp add: child_urls_loop_None)
    then show ?thesis
      using ck by (simp add: update_no_url [OF assms(1)] hash_of_def)
  qed
  have 2: "hash_of (snd (updateOrderedURLHash m r)) n = None"
    if "\<not> fst (updateOrderedURLHash m r)"
    using that ck unfolding update_unfold [OF assms(1)]
    by (auto simp: hash_of_def split: option.splits if_splits)
  show ?thesis using 1 2 by blast
qed

theorem C4_witness:
  "hash_of c4_model ''w1'' = Some ex_hash \<and>
   tabs_by_node_id_raw_url c4_model ''t2'' = None \<and>
   \<not> fst (updateOrderedURLHash c4_model (NodeId ''w1'')) \<and>
   windows (snd (updateOrderedURLHash c4_model (NodeId ''w1''))) ''w1'' = Some (ex_win ''w1'') \<and>
   hash_of (snd (updateOrderedURLHash c4_model (NodeId ''w1''))) ''w1'' = None"
proof -
  have r: "window_ref c4_model (NodeId ''w1'') ''w1''
      ((ex_win ''w1'')\<lparr>ordered_url_hash := Some ex_hash\<rparr>)
      (ex_node (Some ''#'') [''#''] [''t1'', ''t2''] ''win'')"
    by (simp add: window_ref_def c4_model_def ex_model_def get_node_def ex_tree_def)
  have u: "tabs_by_node_id_raw_url c4_model ''t2'' = None"
    by (simp add: tabs_by_node_id_raw_url_def c4_model_def)
  have h: "hash_of c4_model ''w1'' = Some ex_hash"
    by (simp add: hash_of_def c4_model_def)
  have e: "(ex_win ''w1'')\<lparr>ordered_url_hash := Some ex_hash, ordered_url_hash := None\<rparr> =
           ex_win ''w1''"
    by (simp add: ex_win_def blank_def)
  show ?thesis
    using C4_no_stale_hash [OF r] u h e by (simp add: ex_node_def)
qed

section \<open>Claim C2: creation and its rollback\<close>

text \<open>
  C2. \<open>vnRezWin\<close> and \<open>vnRezTab\<close> ask the tree for the node first. If the tree refuses,
  they return \<open>VN_NONE\<close> and nothing has changed: no record was added. If the node was
  created under the id \<open>n\<close> and the store refuses the record (the key \<open>n\<close> is in use),
  they return \<open>VN_NONE\<close>, the stores are as before and the node \<open>n\<close> is no longer in the
  tree; in a well-formed tree the whole state is the one before the call. If the store
  accepts the record, the pair returned is the new record and \<open>n\<close>, the record has the
  node id \<open>n\<close>, the store gives it back for \<open>n\<close>, and the node \<open>n\<close> is in the tree. In every
  case invariant 1 (a node for every record and a record for every node), when it holds in
  a well-formed tree before the call, holds after it.
\<close>

theorem C2_create:
  "(fst (win_node m f pick) = None \<longrightarrow> vnRezWin m f pick = (VN_NONE, m)) \<and>
   (fst (win_node m f pick) = Some n \<and> windows m n \<noteq> None \<longrightarrow>
      fst (vnRezWin m f pick) = VN_NONE \<and>
      treeobj (snd (vnRezWin m f pick)) n = None \<and>
      windows (snd (vnRezWin m f pick)) = windows m \<and>
      tabs (snd (vnRezWin m f pick)) = tabs m \<and>
      (tree_ok (treeobj m) \<longrightarrow> snd (vnRezWin m f pick) = m)) \<and>
   (fst (win_node m f pick) = Some n \<and> windows m n = None \<longrightarrow>
      fst (vnRezWin m f pick) = (Some (fresh_win n), n) \<and>
      node_id (fresh_win n) = n \<and>
      windows (snd (vnRezWin m f pick)) n = Some (fresh_win n) \<and>
      val_by_node_id (snd (vnRezWin m f pick)) n = Some (fresh_win n) \<and>
      treeobj (snd (vnRezWin m f pick)) n \<noteq> None) \<and>
   (paired m \<and> tree_ok (treeobj m) \<longrightarrow> paired (snd (vnRezWin m f pick))) \<and>
   (vn_by_vorny m r None = (Some pv, p) \<and> get_node (treeobj m) p \<noteq> None \<longrightarrow>
      (fst (tab_node m p pick) = None \<longrightarrow> vnRezTab m r pick = (VN_NONE, m)) \<and>
      (fst (tab_node m p pick) = Some n \<and> tabs m n \<noteq> None \<longrightarrow>
         fst (vnRezTab m r pick) = VN_NONE \<and>
         treeobj (snd (vnRezTab m r pick)) n = None \<and>
         windows (snd (vnRezTab m r pick)) = windows m \<and>
         tabs (snd (vnRezTab m r pick)) = tabs m \<and>
         (tree_ok (treeobj m) \<longrightarrow> snd (vnRezTab m r pick) = m)) \<and>
      (fst (tab_node m p pick) = Some n \<and> tabs m n = None \<longrightarrow>
         fst (vnRezTab m r pick) = (Some (fresh_tab n), n) \<and>
         node_id (fresh_tab n) = n \<and>
         tabs (snd (vnRezTab m r pick)) n = Some (fresh_tab n) \<and>
         (windows m n = None \<longrightarrow> val_by_node_id (snd (vnRezTab m r pick)) n = Some (fresh_tab n)) \<and>
         treeobj (snd (vnRezTab m r pick)) n \<noteq> None)) \<and>
   (paired m \<and> tree_ok (treeobj m) \<longrightarrow> paired (snd (vnRezTab m r pick)))"
proof (intro conjI impI; (elim conjE)?)
  show "vnRezWin m f pick = (VN_NONE, m)" if "fst (win_node m f pick) = None"
    using that vnRezWin_refused [of m f pick] by (simp add: win_node_def)
  show "paired (snd (vnRezWin m f pick))" if "paired m" "tree_ok (treeobj m)"
    using vnRezWin_paired [OF that] .
  show "paired (snd (vnRezTab m r pick))" if "paired m" "tree_ok (treeobj m)"
    using vnRezTab_paired [OF that] .
next
  assume c: "fst (win_node m f pick) = Some n" and w: "windows m n \<noteq> None"
  from c have c': "fst (create_node (treeobj m) jstree_root [Raw ''Window'']
                  (if f then At 1 else Last) pick) = Some n"
    by (simp add: win_node_def)
  note e = vnRezWin_add_fails [OF c' w]
  show "fst (vnRezWin m f pick) = VN_NONE" "windows (snd (vnRezWin m f pick)) = windows m"
    "tabs (snd (vnRezWin m f pick)) = tabs m"
    by (simp_all add: e)
  show "treeobj (snd (vnRezWin m f pick)) n = None"
    by (simp add: e create_delete_gone [OF c'])
  show "snd (vnRezWin m f pick) = m" if "tree_ok (treeobj m)"
    by (simp add: e create_delete [OF c' that])
next
  assume c: "fst (win_node m f pick) = Some n" and w: "windows m n = None"
  from c have c': "fst (create_node (treeobj m) jstree_root [Raw ''Window'']
                  (if f then At 1 else Last) pick) = Some n"
    by (simp add: win_node_def)
  note ok = vnRezWin_ok [OF c' w]
  show "fst (vnRezWin m f pick) = (Some (fresh_win n), n)" by (rule ok(1))
  show "node_id (fresh_win n) = n" by (simp add: fresh_win_def)
  show "windows (snd (vnRezWin m f pick)) n = Some (fresh_win n)" by (simp add: ok(2))
  show "val_by_node_id (snd (vnRezWin m f pick)) n = Some (fresh_win n)"
    by (simp add: val_by_node_id_def ok(2))
  show "treeobj (snd (vnRezWin m f pick)) n \<noteq> None" by (simp add: ok(4))
next
  assume r: "vn_by_vorny m r None = (Some pv, p)" "get_node (treeobj m) p \<noteq> None"
  show "vnRezTab m r pick = (VN_NONE, m)" if "fst (tab_node m p pick) = None"
    using that vnRezTab_refused [OF r, of pick] by (simp add: tab_node_def)
  {
    assume c: "fst (tab_node m p pick) = Some n" and w: "tabs m n \<noteq> None"
    from c have c': "fst (create_node (treeobj m) p [Raw ''Tab''] Last pick) = Some n"
      by (simp add: tab_node_def)
    note e = vnRezTab_add_fails [OF r c' w]
    show "fst (vnRezTab m r pick) = VN_NONE" "windows (snd (vnRezTab m r pick)) = windows m"
      "tabs (snd (vnRezTab m r pick)) = tabs m"
      by (simp_all add: e)
    show "treeobj (snd (vnRezTab m r pick)) n = None"
      by (simp add: e create_delete_gone [OF c'])
    show "snd (vnRezTab m r pick) = m" if "tree_ok (treeobj m)"
      by (simp add: e create_delete [OF c' that])
  }
  {
    assume c: "fst (tab_node m p pick) = Some n" and w: "tabs m n = None"
    from c have c': "fst (create_node (treeobj m) p [Raw ''Tab''] Last pick) = Some n"
      by (simp add: tab_node_def)
    note ok = vnRezTab_ok [OF r c' w]
    show "fst (vnRezTab m r pick) = (Some (fresh_tab n), n)" by (rule ok(1))
    show "node_id (fresh_tab n) = n" by (simp add: fresh_tab_def)
    show "tabs (snd (vnRezTab m r pick)) n = Some (fresh_tab n)" by (simp add: ok(2))
    show "val_by_node_id (snd (vnRezTab m r pick)) n = Some (fresh_tab n)" if "windows m n = None"
      using that by (simp add: val_by_node_id_def ok(2,3))
    show "treeobj (snd (vnRezTab m r pick)) n \<noteq> None" by (simp add: ok(4))
  }
qed

theorem C2_witness:
  "fst (vnRezWin ex_model False (Some ''w9'')) = (Some (fresh_win ''w9''), ''w9'') \<and>
   val_by_node_id (snd (vnRezWin ex_model False (Some ''w9''))) ''w9'' = Some (fresh_win ''w9'') \<and>
   treeobj (snd (vnRezWin ex_model False (Some ''w9''))) ''w9'' \<noteq> None \<and>
   paired (snd (vnRezWin ex_model False (Some ''w9''))) \<and>
   vnRezWin ex_model False None = (VN_NONE, ex_model) \<and>
   vnRezWin c2_model False (Some ''w9'') = (VN_NONE, c2_model) \<and>
   fst (vnRezTab ex_model (NodeId ''w1'') (Some ''t9'')) = (Some (fresh_tab ''t9''), ''t9'') \<and>
   val_by_node_id (snd (vnRezTab ex_model (NodeId ''w1'') (Some ''t9''))) ''t9'' =
     Some (fresh_tab ''t9'') \<and>
   treeobj (snd (vnRezTab ex_model (NodeId ''w1'') (Some ''t9''))) ''t9'' \<noteq> None \<and>
   paired (snd (vnRezTab ex_model (NodeId ''w1'') (Some ''t9''))) \<and>
   vnRezTab ex_model (NodeId ''w1'') None = (VN_NONE, ex_model) \<and>
   vnRezTab c2_model (NodeId ''w1'') (Some ''t9'') = (VN_NONE, c2_model)"
proof -
  have t: "treeobj ex_model = ex_tree" "treeobj c2_model = ex_tree"
    by (simp_all add: ex_model_def c2_model_def)
  have r: "vn_by_vorny ex_model (NodeId ''w1'') None = (Some (ex_win ''w1''), ''w1'')"
    "vn_by_vorny c2_model (NodeId ''w1'') None = (Some (ex_win ''w1''), ''w1'')"
    "get_node ex_tree ''w1'' \<noteq> None"
    by (simp_all add: val_by_node_id_def ex_model_def c2_model_def get_node_def ex_tree_def)
  have c: "fst (win_node ex_model False (Some ''w9'')) = Some ''w9''"
    "fst (win_node c2_model False (Some ''w9'')) = Some ''w9''"
    "fst (win_node ex_model False None) = None"
    "fst (tab_node ex_model ''w1'' (Some ''t9'')) = Some ''t9''"
    "fst (tab_node c2_model ''w1'' (Some ''t9'')) = Some ''t9''"
    "fst (tab_node ex_model ''w1'' None) = None"
    by (simp_all add: win_node_def tab_node_def create_node_def t ex_tree_def jstree_root_def
          Let_def)
  have s: "windows ex_model ''w9'' = None" "windows ex_model ''t9'' = None"
    "tabs ex_model ''t9'' = None" "windows c2_model ''w9'' \<noteq> None"
    "tabs c2_model ''t9'' \<noteq> None"
    by (simp_all add: ex_model_def c2_model_def)
  note f = t r c s tree_ok_ex paired_ex
  have a: "fst (vnRezWin ex_model False (Some ''w9'')) = (Some (fresh_win ''w9''), ''w9'') \<and>
      val_by_node_id (snd (vnRezWin ex_model False (Some ''w9''))) ''w9'' =
        Some (fresh_win ''w9'') \<and>
      treeobj (snd (vnRezWin ex_model False (Some ''w9''))) ''w9'' \<noteq> None \<and>
      paired (snd (vnRezWin ex_model False (Some ''w9'')))"
    using C2_create [of ex_model False "Some ''w9''" "''w9''" "NodeId ''w1''" "ex_win ''w1''"
        "''w1''"] f by simp
  have b: "fst (vnRezTab ex_model (NodeId ''w1'') (Some ''t9'')) =
        (Some (fresh_tab ''t9''), ''t9'') \<and>
      val_by_node_id (snd (vnRezTab ex_model (NodeId ''w1'') (Some ''t9''))) ''t9'' =
        Some (fresh_tab ''t9'') \<and>
      treeobj (snd (vnRezTab ex_model (NodeId ''w1'') (Some ''t9''))) ''t9'' \<noteq> None \<and>
      paired (snd (vnRezTab ex_model (NodeId ''w1'') (Some ''t9'')))"
    using C2_create [of ex_model False "Some ''t9''" "''t9''" "NodeId ''w1''" "ex_win ''w1''"
        "''w1''"] f by simp
  have d: "vnRezWin ex_model False None = (VN_NONE, ex_model) \<and>
      vnRezTab ex_model (NodeId ''w1'') None = (VN_NONE, ex_model)"
    using C2_create [of ex_model False None "''t9''" "NodeId ''w1''" "ex_win ''w1''" "''w1''"] f
    by simp
  have e: "vnRezWin c2_model False (Some ''w9'') = (VN_NONE, c2_model)"
    using C2_create [of c2_model False "Some ''w9''" "''w9''" "NodeId ''w1''" "ex_win ''w1''"
        "''w1''"] f by (simp add: prod_eq_iff)
  have g: "vnRezTab c2_model (NodeId ''w1'') (Some ''t9'') = (VN_NONE, c2_model)"
    using C2_create [of c2_model False "Some ''t9''" "''t9''" "NodeId ''w1''" "ex_win ''w1''"
        "''w1''"] f by (simp add: prod_eq_iff)
  show ?thesis
    using a b d e g by simp
qed

section \<open>Claim C3: \<open>eraseWin\<close>\<close>

text \<open>
  C3. Let the store be consistent and let \<open>r\<close> refer to a window item with node id \<open>n\<close>,
  whose node has a parent and whose children are its children in the tree; nothing is asked
  of the state of the window (open or closed, saved or not). \<open>eraseWin\<close> calls \<open>eraseTab\<close>
  on the children in their order, as \<open>get_node\<close> listed them when the loop began, and only
  then removes the record and the node of the window.

  \<^item> When it returns true, the record of the window and the record of every child have
    left the store, and their nodes have left the tree.
  \<^item> It returns true when every child has a record and a node.
  \<^item> When the children before the child \<open>c\<close> have a record and a node and \<open>c\<close> lacks one,
    it returns false: the children before \<open>c\<close> are erased, \<open>c\<close> and the children after it
    are as they were, and the record and the node of the window are still there.
\<close>

theorem C3_eraseWin:
  assumes "store_ok m" and "window_ref m r n v nd" and "parent nd \<noteq> None"
    and "children_ok (treeobj m) n (children nd)"
  shows
   "(fst (eraseWin m r) \<longrightarrow>
       windows (snd (eraseWin m r)) n = None \<and> treeobj (snd (eraseWin m r)) n = None \<and>
       (\<forall>c \<in> set (children nd).
          tabs (snd (eraseWin m r)) c = None \<and> treeobj (snd (eraseWin m r)) c = None)) \<and>
    ((\<forall>c \<in> set (children nd). c \<noteq> [] \<and> tabs m c \<noteq> None \<and> treeobj m c \<noteq> None) \<longrightarrow>
       fst (eraseWin m r)) \<and>
    (\<forall>cs1 c cs2.
       children nd = cs1 @ c # cs2 \<and>
       (\<forall>a \<in> set cs1. a \<noteq> [] \<and> tabs m a \<noteq> None \<and> treeobj m a \<noteq> None) \<and>
       (c = [] \<or> tabs m c = None \<or> treeobj m c = None) \<longrightarrow>
       \<not> fst (eraseWin m r) \<and>
       (\<forall>a \<in> set cs1.
          tabs (snd (eraseWin m r)) a = None \<and> treeobj (snd (eraseWin m r)) a = None) \<and>
       (\<forall>b \<in> set (c # cs2).
          tabs (snd (eraseWin m r)) b = tabs m b \<and>
          treeobj (snd (eraseWin m r)) b = treeobj m b) \<and>
       windows (snd (eraseWin m r)) n = Some v \<and>
       treeobj (snd (eraseWin m r)) n \<noteq> None)"
proof (intro conjI impI allI ballI; (elim conjE)?)
  assume t: "fst (eraseWin m r)"
  note a = eraseWin_true [OF assms t]
  show "windows (snd (eraseWin m r)) n = None" by (rule a(1))
  show "treeobj (snd (eraseWin m r)) n = None" by (rule a(2))
  show "tabs (snd (eraseWin m r)) c = None" "treeobj (snd (eraseWin m r)) c = None"
    if "c \<in> set (children nd)" for c
    using a(3) [OF that] by simp_all
next
  assume "\<forall>c \<in> set (children nd). c \<noteq> [] \<and> tabs m c \<noteq> None \<and> treeobj m c \<noteq> None"
  then show "fst (eraseWin m r)"
    using eraseWin_all [OF assms(1,2,4)] by blast
next
  fix cs1 c cs2
  assume cs: "children nd = cs1 @ c # cs2"
    and all: "\<forall>a \<in> set cs1. a \<noteq> [] \<and> tabs m a \<noteq> None \<and> treeobj m a \<noteq> None"
    and bad: "c = [] \<or> tabs m c = None \<or> treeobj m c = None"
  note a = eraseWin_abort [OF assms(1,2,4) cs all bad]
  show "\<not> fst (eraseWin m r)" by (rule a(1))
  show "windows (snd (eraseWin m r)) n = Some v" by (rule a(4))
  show "treeobj (snd (eraseWin m r)) n \<noteq> None" by (rule a(5))
  show "tabs (snd (eraseWin m r)) a = None" "treeobj (snd (eraseWin m r)) a = None"
    if "a \<in> set cs1" for a
    using a(2) [OF that] by simp_all
  show "tabs (snd (eraseWin m r)) b = tabs m b" "treeobj (snd (eraseWin m r)) b = treeobj m b"
    if "b \<in> set (c # cs2)" for b
    using a(3) [OF that] by simp_all
qed

lemma c3_facts:
  "store_ok c3_model"
  "window_ref c3_model (NodeId ''w1'') ''w1'' (ex_win ''w1'')
     (ex_node (Some ''#'') [''#''] [''t1'', ''t2''] ''win'')"
  "children_ok ex_tree ''w1'' [''t1'', ''t2'']"
  "treeobj ex_model = ex_tree" "treeobj c3_model = ex_tree"
  "tabs c3_model ''t2'' = None" "tabs c3_model ''t1'' \<noteq> None" "ex_tree ''t1'' \<noteq> None"
  "tabs ex_model ''t1'' \<noteq> None" "tabs ex_model ''t2'' \<noteq> None" "ex_tree ''t2'' \<noteq> None"
  "windows ex_model ''w1'' \<noteq> None" "ex_tree ''w1'' \<noteq> None"
proof -
  show "store_ok c3_model"
    by (simp add: store_ok_def c3_model_def ex_model_def ex_win_def ex_tab_def blank_def
          split: if_splits)
  show "children_ok ex_tree ''w1'' [''t1'', ''t2'']"
    by (auto simp: children_ok_def ex_tree_def ex_node_def)
qed (simp_all add: window_ref_def c3_model_def ex_model_def get_node_def ex_tree_def)

theorem C3_witness:
  "windows ex_model ''w1'' \<noteq> None \<and> treeobj ex_model ''w1'' \<noteq> None \<and>
   fst (eraseWin ex_model (NodeId ''w1'')) \<and>
   windows (snd (eraseWin ex_model (NodeId ''w1''))) ''w1'' = None \<and>
   treeobj (snd (eraseWin ex_model (NodeId ''w1''))) ''w1'' = None \<and>
   tabs (snd (eraseWin ex_model (NodeId ''w1''))) ''t1'' = None \<and>
   treeobj (snd (eraseWin ex_model (NodeId ''w1''))) ''t1'' = None \<and>
   tabs (snd (eraseWin ex_model (NodeId ''w1''))) ''t2'' = None \<and>
   treeobj (snd (eraseWin ex_model (NodeId ''w1''))) ''t2'' = None \<and>
   \<not> fst (eraseWin c3_model (NodeId ''w1'')) \<and>
   tabs (snd (eraseWin c3_model (NodeId ''w1''))) ''t1'' = None \<and>
   treeobj (snd (eraseWin c3_model (NodeId ''w1''))) ''t1'' = None \<and>
   treeobj (snd (eraseWin c3_model (NodeId ''w1''))) ''t2'' = ex_tree ''t2'' \<and>
   windows (snd (eraseWin c3_model (NodeId ''w1''))) ''w1'' = Some (ex_win ''w1'') \<and>
   treeobj (snd (eraseWin c3_model (NodeId ''w1''))) ''w1'' \<noteq> None"
proof -
  have p: "parent (ex_node (Some ''#'') [''#''] [''t1'', ''t2''] ''win'') \<noteq> None"
    "children (ex_node (Some ''#'') [''#''] [''t1'', ''t2''] ''win'') = [''t1'', ''t2'']"
    by (simp_all add: ex_node_def)
  have ch: "children_ok (treeobj ex_model) ''w1''
              (children (ex_node (Some ''#'') [''#''] [''t1'', ''t2''] ''win''))"
    "children_ok (treeobj c3_model) ''w1''
              (children (ex_node (Some ''#'') [''#''] [''t1'', ''t2''] ''win''))"
    by (simp_all add: p c3_facts)
  note a = C3_eraseWin [OF store_ok_ex ex_window_ref(1) p(1) ch(1)]
  note b = C3_eraseWin [OF c3_facts(1,2) p(1) ch(2)]
  have a1: "fst (eraseWin ex_model (NodeId ''w1''))"
    using a c3_facts by (simp add: p)
  have a2: "windows (snd (eraseWin ex_model (NodeId ''w1''))) ''w1'' = None \<and>
      treeobj (snd (eraseWin ex_model (NodeId ''w1''))) ''w1'' = None \<and>
      tabs (snd (eraseWin ex_model (NodeId ''w1''))) ''t1'' = None \<and>
      treeobj (snd (eraseWin ex_model (NodeId ''w1''))) ''t1'' = None \<and>
      tabs (snd (eraseWin ex_model (NodeId ''w1''))) ''t2'' = None \<and>
      treeobj (snd (eraseWin ex_model (NodeId ''w1''))) ''t2'' = None"
    using a a1 by (simp add: p)
  from b have "children (ex_node (Some ''#'') [''#''] [''t1'', ''t2''] ''win'') =
        [''t1''] @ ''t2'' # [] \<and>
      (\<forall>a \<in> set [''t1'']. a \<noteq> [] \<and> tabs c3_model a \<noteq> None \<and> treeobj c3_model a \<noteq> None) \<and>
      (''t2'' = [] \<or> tabs c3_model ''t2'' = None \<or> treeobj c3_model ''t2'' = None) \<longrightarrow>
      \<not> fst (eraseWin c3_model (NodeId ''w1'')) \<and>
      (\<forall>a \<in> set [''t1''].
         tabs (snd (eraseWin c3_model (NodeId ''w1''))) a = None \<and>
         treeobj (snd (eraseWin c3_model (NodeId ''w1''))) a = None) \<and>
      (\<forall>b \<in> set (''t2'' # []).
         tabs (snd (eraseWin c3_model (NodeId ''w1''))) b = tabs c3_model b \<and>
         treeobj (snd (eraseWin c3_model (NodeId ''w1''))) b = treeobj c3_model b) \<and>
      windows (snd (eraseWin c3_model (NodeId ''w1''))) ''w1'' = Some (ex_win ''w1'') \<and>
      treeobj (snd (eraseWin c3_model (NodeId ''w1''))) ''w1'' \<noteq> None"
    by blast
  then have b1: "\<not> fst (eraseWin c3_model (NodeId ''w1'')) \<and>
      tabs (snd (eraseWin c3_model (NodeId ''w1''))) ''t1'' = None \<and>
      treeobj (snd (eraseWin c3_model (NodeId ''w1''))) ''t1'' = None \<and>
      treeobj (snd (eraseWin c3_model (NodeId ''w1''))) ''t2'' = ex_tree ''t2'' \<and>
      windows (snd (eraseWin c3_model (NodeId ''w1''))) ''w1'' = Some (ex_win ''w1'') \<and>
      treeobj (snd (eraseWin c3_model (NodeId ''w1''))) ''w1'' \<noteq> None"
    using c3_facts by (simp add: p)
  show ?thesis using a1 a2 b1 c3_facts by simp
qed

section \<open>Claim C5: the hash of a sequence\<close>

text \<open>
  C5. \<open>orderedHashOfStrings\<close> is the BLAKE2s-256 digest, in hexadecimal, of the bytes of
  the strings in their order, each string in UTF-8 and followed by one byte 0: feeding the
  strings one by one to the hash state gives the state that one \<open>update\<close> with all these
  bytes gives. The digest depends on the sequence of strings only. The digests of
  \<open>["a","b"]\<close>, \<open>["ab"]\<close> and \<open>["a","bc"]\<close> are computed, and the first differs from the
  other two. (A string here is a string of code points below 256.)
\<close>

theorem C5_hash_sequence:
  "orderedHashOfStrings strs =
     hexDigest (blake_update (BLAKE2s_new 32)
                  (concat (map (\<lambda>s. utf8 s @ [0]) (as_array strs)))) \<and>
   (as_array strs = as_array strs' \<longrightarrow>
      orderedHashOfStrings strs = orderedHashOfStrings strs') \<and>
   orderedHashOfStrings (Array [''a'', ''b'']) =
     ''7ab5fd5273ec5d7d01073428cbee1520d862d95a8939b6515878ae0b1f791180'' \<and>
   orderedHashOfStrings (Array [''ab'']) =
     ''e2d86482e63f0d305857f2263ad5eb2afdae63db6805b19af87448512f310ac0'' \<and>
   orderedHashOfStrings (Array [''a'', ''bc'']) =
     ''1a06350ea979cb352a06672f369ea6ec8e2c21f75ed66a0fda92f938b6a74524'' \<and>
   orderedHashOfStrings (Array [''a'', ''b'']) \<noteq> orderedHashOfStrings (Array [''ab'']) \<and>
   orderedHashOfStrings (Array [''a'', ''b'']) \<noteq> orderedHashOfStrings (Array [''a'', ''bc''])"
proof -
  have 1: "orderedHashOfStrings strs =
     hexDigest (blake_update (BLAKE2s_new 32)
                  (concat (map (\<lambda>s. utf8 s @ [0]) (as_array strs))))"
    by (rule orderedHashOfStrings_one_update)
  have 2: "orderedHashOfStrings strs = orderedHashOfStrings strs'"
    if "as_array strs = as_array strs'"
    using that by (simp add: orderedHashOfStrings_def)
  have 3: "orderedHashOfStrings (Array [''a'', ''b'']) \<noteq> orderedHashOfStrings (Array [''ab''])"
    unfolding hash_a_b hash_ab by simp
  have 4: "orderedHashOfStrings (Array [''a'', ''b'']) \<noteq>
           orderedHashOfStrings (Array [''a'', ''bc''])"
    unfolding hash_a_b hash_a_bc by simp
  show ?thesis using 1 2 3 4 hash_a_b hash_ab hash_a_bc by blast
qed

theorem C5_witness:
  "orderedHashOfStrings (Single ''a'') =
     hexDigest (blake_update (BLAKE2s_new 32) [97, 0]) \<and>
   orderedHashOfStrings (Single ''a'') = orderedHashOfStrings (Array [''a'']) \<and>
   orderedHashOfStrings (Array [''a'', ''b'']) =
     hexDigest (blake_update (BLAKE2s_new 32) [97, 0, 98, 0]) \<and>
   orderedHashOfStrings (Array [''a'', ''b'']) \<noteq> orderedHashOfStrings (Array [''ab''])"
proof -
  have u: "concat (map (\<lambda>s. utf8 s @ [0]) (as_array (Single ''a''))) = [97, 0]"
    "concat (map (\<lambda>s. utf8 s @ [0]) (as_array (Array [''a'', ''b'']))) = [97, 0, 98, 0]"
    by (simp_all add: utf8_def utf8_char_def)
  note a = C5_hash_sequence [of "Single ''a''" "Array [''a'']"]
  note b = C5_hash_sequence [of "Array [''a'', ''b'']" "Array [''a'', ''b'']"]
  have a1: "orderedHashOfStrings (Single ''a'') =
      hexDigest (blake_update (BLAKE2s_new 32) [97, 0])"
    using a unfolding u by (rule conjunct1)
  have a2: "as_array (Single ''a'') = as_array (Array [''a'']) \<longrightarrow>
      orderedHashOfStrings (Single ''a'') = orderedHashOfStrings (Array [''a''])"
    using a by blast
  have b1: "orderedHashOfStrings (Array [''a'', ''b'']) =
      hexDigest (blake_update (BLAKE2s_new 32) [97, 0, 98, 0])"
    using b unfolding u by (rule conjunct1)
  have b2: "orderedHashOfStrings (Array [''a'', ''b'']) \<noteq> orderedHashOfStrings (Array [''ab''])"
    using b by blast
  from a2 have a3: "orderedHashOfStrings (Single ''a'') = orderedHashOfStrings (Array [''a''])"
    by simp
  show ?thesis using a1 a3 b1 b2 by blast
qed

end
